theory Spec2Isabelle
  imports Main "HOL-Library.Sublist"
begin

section \<open>The hash-based router of public/scripts/router.js\<close>

text \<open>
  The development follows class \<open>Router\<close> of \<^verbatim>\<open>public/scripts/router.js\<close>.
  The router object and the parts of the document it writes are one record that every
  method takes and returns. Each method is first given as a function from the state
  before a call to the state after it, for a call during which no other call runs; the
  subsection on overlapping calls then gives the same code cut where it waits, as steps
  of the event loop, and the sessions of the properties are sequences of such steps.
  What the router cannot decide itself is an explicit parameter of each call: the
  answer of \<open>fetch\<close> for a URL, and which of the collaborators called inside the
  \<open>try\<close> block of \<open>loadRoute\<close> raises an exception. A \<open>trace\<close> field records, in
  order, the observable steps a call performs (network requests, console errors, the
  phases of \<open>loadRoute\<close>); it is the only field without a counterpart in the source.
\<close>

subsection \<open>Routes\<close>

record route =
  path :: string
  component :: string
  title :: string

definition mkRoute :: "string \<Rightarrow> string \<Rightarrow> string \<Rightarrow> route" where
  "mkRoute p c t = \<lparr>path = p, component = c, title = t\<rparr>"

text \<open>The array literal of \<open>defineRoutes\<close>, in source order.\<close>

definition routeList :: "route list" where
  "routeList =
    [mkRoute '''' ''home'' ''Home'',
     mkRoute ''home'' ''home'' ''Home'',
     mkRoute ''about'' ''about'' ''About Us'',
     mkRoute ''sustainability'' ''sustainability'' ''Sustainability'',
     mkRoute ''certifications'' ''certifications'' ''Certifications'',
     mkRoute ''clients'' ''clients'' ''Our Clients'',
     mkRoute ''impact'' ''impact'' ''Impact Stories'',
     mkRoute ''careers'' ''careers'' ''Careers'',
     mkRoute ''news'' ''news'' ''News & Updates'',
     mkRoute ''contact'' ''contact'' ''Contact Us'',
     mkRoute ''rfq'' ''rfq'' ''Request for Quote'',
     mkRoute ''investors'' ''investors'' ''Investor Relations'',
     mkRoute ''privacy'' ''privacy'' ''Privacy Policy'',
     mkRoute ''terms'' ''terms'' ''Terms of Service'']"

text \<open>\<open>routes.forEach(route => this.routes.set(route.path, route))\<close>: a later entry
  with the same path would replace an earlier one.\<close>

definition defineRoutes :: "string \<rightharpoonup> route" where
  "defineRoutes = foldl (\<lambda>m r. m(path r \<mapsto> r)) Map.empty routeList"

text \<open>\<open>this.routes.get(path) || this.routes.get('home')\<close>. The result is \<open>None\<close> when
  both lookups are undefined; \<open>loadRoute\<close> then fails on \<open>route.path\<close>.\<close>

definition resolve :: "string \<Rightarrow> route option" where
  "resolve p = (case defineRoutes p of Some r \<Rightarrow> Some r | None \<Rightarrow> defineRoutes ''home'')"

subsection \<open>Configuration values read by the router\<close>

text \<open>The entries of \<open>CONFIG\<close> (configuration module) that \<open>getConfig\<close> returns for
  the keys the router asks for.\<close>

definition SEO_TITLE_TEMPLATE :: string where
  "SEO_TITLE_TEMPLATE = ''%s | Kattali Textile Ltd.''"

definition SEO_DEFAULT_DESCRIPTION :: string where
  "SEO_DEFAULT_DESCRIPTION = ''Leading textile manufacturer in Bangladesh with 12 production lines, 850+ team members. ISO-certified, ethical, sustainable production for global markets.''"

definition SEO_CANONICAL_URL :: string where
  "SEO_CANONICAL_URL = ''https://ktlbd.com''"

text \<open>\<open>String.prototype.replace\<close> with a string pattern: the first occurrence only.
  (No title of the route table contains a dollar sign, so the replacement text is
  inserted literally.)\<close>

fun replaceFirst :: "string \<Rightarrow> string \<Rightarrow> string \<Rightarrow> string" where
  "replaceFirst pat rep [] = (if pat = [] then rep else [])"
| "replaceFirst pat rep (c # cs) =
     (if take (length pat) (c # cs) = pat then rep @ drop (length pat) (c # cs)
      else c # replaceFirst pat rep cs)"

subsection \<open>State, environment and results\<close>

datatype event =
    Fetch string
  | ConsoleError
  | ShowLoading
  | HideLoading
  | PageTitle string
  | ActiveNavigation string
  | Render string
  | CurrentRoute string
  | PageComponents string
  | PageView string
  | RouteError

record container =
  innerHTML :: string
  opacity :: string
  transform :: string

text \<open>\<open>loadingElement\<close> holds the \<open>display\<close> style of the loading skeleton and
  \<open>appContainer\<close> the element \<open>#app\<close>; both are \<open>None\<close> when the document has no such
  element (the source tests both for null). \<open>metaDescription\<close> and \<open>canonical\<close> are the
  attributes written by \<open>updatePageTitle\<close>, \<open>activeLinks\<close> the \<open>data-route\<close> values
  whose links carry the class \<open>active\<close>.\<close>

record router =
  currentRoute :: "string option"
  cache :: "string \<rightharpoonup> string"
  prefetchedRoutes :: "string set"
  loadingElement :: "string option"
  appContainer :: "container option"
  documentTitle :: string
  metaDescription :: "string option"
  canonical :: "string option"
  activeLinks :: "string set"
  locationHash :: string
  trace :: "event list"

datatype fetch_outcome = Rejected | Response nat "string option"

datatype phase =
    UpdatePageTitle
  | UpdateActiveNavigation
  | TriggerContentAnimations
  | ManageFocus
  | InitializePageComponents
  | TrackPageView

text \<open>\<open>fetch url\<close> is what the network answers: the promise rejects, or it resolves
  to a response with a status and a body (\<open>None\<close> when \<open>response.text()\<close> rejects).
  \<open>throws ph\<close> says that the collaborator \<open>ph\<close> raises when it is called, before
  it has changed anything the record holds.\<close>

record env =
  fetch :: "string \<Rightarrow> fetch_outcome"
  throws :: "phase \<Rightarrow> bool"

datatype error = TypeError | Thrown phase

type_synonym result = "error option \<times> router"

definition andThen :: "result \<Rightarrow> (router \<Rightarrow> result) \<Rightarrow> result" where
  "andThen r f = (case r of (None, s) \<Rightarrow> f s | (Some e, s) \<Rightarrow> (Some e, s))"

definition emit :: "event \<Rightarrow> router \<Rightarrow> router" where
  "emit ev s = s\<lparr>trace := trace s @ [ev]\<rparr>"

subsection \<open>Fragment loader\<close>

definition nl :: string where
  "nl = [CHR 0x0A]"

definition dq :: string where
  "dq = [CHR 0x22]"

definition getErrorContent :: "string \<Rightarrow> string" where
  "getErrorContent c = concat
    [nl, ''      <div class='', dq, ''error-content'', dq, ''>'',
     nl, ''        <h2>Content Unavailable</h2>'',
     nl, ''        <p>Sorry, we're having trouble loading the '', c, '' page content.</p>'',
     nl, ''        <p>Please check your internet connection and try again.</p>'',
     nl, ''        <button onclick='', dq, ''location.reload()'', dq, '' class='', dq,
         ''btn btn-secondary'', dq, ''>Retry</button>'',
     nl, ''      </div>'',
     nl, ''    '']"

definition partialUrl :: "string \<Rightarrow> string" where
  "partialUrl c = ''partials/'' @ c @ ''.html''"

definition ok :: "nat \<Rightarrow> bool" where
  "ok status = (200 \<le> status \<and> status \<le> 299)"

text \<open>\<open>loadComponent\<close>: the cached text on a hit; otherwise one request, whose text is
  cached and returned when the response is ok, and the fallback of \<open>getErrorContent\<close>
  (after \<open>console.error\<close>) when the request rejects, the status is not ok or the body
  cannot be read.\<close>

definition loadComponent :: "env \<Rightarrow> router \<Rightarrow> string \<Rightarrow> string \<times> router" where
  "loadComponent e s c =
    (case cache s c of
       Some content \<Rightarrow> (content, s)
     | None \<Rightarrow>
        (let s1 = emit (Fetch (partialUrl c)) s in
         case fetch e (partialUrl c) of
           Rejected \<Rightarrow> (getErrorContent c, emit ConsoleError s1)
         | Response status body \<Rightarrow>
            (if \<not> ok status then (getErrorContent c, emit ConsoleError s1)
             else case body of
                    None \<Rightarrow> (getErrorContent c, emit ConsoleError s1)
                  | Some content \<Rightarrow> (content, s1\<lparr>cache := (cache s1)(c \<mapsto> content)\<rparr>))))"

text \<open>\<open>prefetchRoute\<close>. Its \<open>catch\<close> branch is not reachable: \<open>loadComponent\<close> returns
  in every case.\<close>

definition prefetchRoute :: "env \<Rightarrow> router \<Rightarrow> string \<Rightarrow> router" where
  "prefetchRoute e s p =
    (if p \<in> prefetchedRoutes s then s
     else case defineRoutes p of
            None \<Rightarrow> s
          | Some r \<Rightarrow>
             (let s1 = snd (loadComponent e s (component r))
              in s1\<lparr>prefetchedRoutes := insert p (prefetchedRoutes s1)\<rparr>))"

definition prefetchCriticalRoutes :: "env \<Rightarrow> router \<Rightarrow> router" where
  "prefetchCriticalRoutes e s = foldl (prefetchRoute e) s [''about'', ''contact'', ''rfq'']"

subsection \<open>The steps of loadRoute\<close>

definition showLoading :: "router \<Rightarrow> router" where
  "showLoading s =
    emit ShowLoading (s\<lparr>loadingElement := map_option (\<lambda>_. ''block'') (loadingElement s)\<rparr>)"

definition hideLoading :: "router \<Rightarrow> router" where
  "hideLoading s =
    emit HideLoading (s\<lparr>loadingElement := map_option (\<lambda>_. ''none'') (loadingElement s)\<rparr>)"

definition updatePageTitle :: "env \<Rightarrow> router \<Rightarrow> string \<Rightarrow> result" where
  "updatePageTitle e s t =
    (if throws e UpdatePageTitle then (Some (Thrown UpdatePageTitle), s)
     else (None, emit (PageTitle t)
       (s\<lparr>documentTitle := replaceFirst ''%s'' t SEO_TITLE_TEMPLATE,
          metaDescription := map_option (\<lambda>_. SEO_DEFAULT_DESCRIPTION) (metaDescription s),
          canonical := map_option (\<lambda>_. SEO_CANONICAL_URL @ locationHash s) (canonical s)\<rparr>)))"

text \<open>The selector of \<open>updateActiveNavigation\<close> names \<open>path\<close> and \<open>path || 'home'\<close>.\<close>

definition updateActiveNavigation :: "env \<Rightarrow> router \<Rightarrow> string \<Rightarrow> result" where
  "updateActiveNavigation e s p =
    (if throws e UpdateActiveNavigation then (Some (Thrown UpdateActiveNavigation), s)
     else (None, emit (ActiveNavigation p)
       (s\<lparr>activeLinks := {p, if p = [] then ''home'' else p}\<rparr>)))"

text \<open>\<open>manageFocus\<close> sets \<open>tabindex="-1"\<close> on the first \<open>h1\<close> or \<open>h2\<close> inside the
  container (and focuses it). The container's markup is kept as text, so the heading is
  found as the first start tag \<open><h1\<close> or \<open><h2\<close> of the text and the attribute is
  written at the end of that tag, where the browser serialises a new attribute. This
  reading is exact for markup whose first heading is a lower-case start tag that has no
  \<open>tabindex\<close> yet and no \<open>>\<close> inside an attribute value, as in the two fragments
  the router itself produces.\<close>

definition tabindexAttribute :: string where
  "tabindexAttribute = '' tabindex='' @ dq @ ''-1'' @ dq"

fun setTabindex :: "string \<Rightarrow> string" where
  "setTabindex [] = []"
| "setTabindex (c # cs) =
     (if c = CHR ''>'' then tabindexAttribute @ c # cs else c # setTabindex cs)"

definition headingStart :: "string \<Rightarrow> bool" where
  "headingStart s =
    ((take 3 s = ''<h1'' \<or> take 3 s = ''<h2'')
     \<and> (case drop 3 s of
            [] \<Rightarrow> False
          | d # ds \<Rightarrow> d \<in> set [CHR ''>'', CHR '' '', CHR ''/'', CHR 0x0A, CHR 0x09, CHR 0x0C, CHR 0x0D]))"

fun focusHeading :: "string \<Rightarrow> string" where
  "focusHeading [] = []"
| "focusHeading (c # cs) =
     (if headingStart (c # cs) then setTabindex (c # cs) else c # focusHeading cs)"

text \<open>\<open>renderContent\<close>: nothing without the container; otherwise fade out, replace
  the content, \<open>triggerContentAnimations\<close>, fade in, \<open>manageFocus\<close>.\<close>

definition renderContent :: "env \<Rightarrow> router \<Rightarrow> string \<Rightarrow> result" where
  "renderContent e s content =
    (case appContainer s of
       None \<Rightarrow> (None, s)
     | Some a \<Rightarrow>
        (let a1 = a\<lparr>opacity := ''0'', transform := ''translateY(20px)''\<rparr>;
             a2 = a1\<lparr>innerHTML := content\<rparr>;
             s2 = emit (Render content) (s\<lparr>appContainer := Some a2\<rparr>)
         in if throws e TriggerContentAnimations
            then (Some (Thrown TriggerContentAnimations), s2)
            else
              (let a3 = a2\<lparr>opacity := ''1'', transform := ''translateY(0)''\<rparr>;
                   s3 = s2\<lparr>appContainer := Some a3\<rparr>
               in if throws e ManageFocus then (Some (Thrown ManageFocus), s3)
                  else (None, s3\<lparr>appContainer :=
                          Some (a3\<lparr>innerHTML := focusHeading (innerHTML a3)\<rparr>)\<rparr>))))"

definition setCurrentRoute :: "router \<Rightarrow> string \<Rightarrow> result" where
  "setCurrentRoute s p = (None, emit (CurrentRoute p) (s\<lparr>currentRoute := Some p\<rparr>))"

definition initializePageComponents :: "env \<Rightarrow> router \<Rightarrow> string \<Rightarrow> result" where
  "initializePageComponents e s c =
    (if throws e InitializePageComponents then (Some (Thrown InitializePageComponents), s)
     else (None, emit (PageComponents c) s))"

definition trackPageView :: "env \<Rightarrow> router \<Rightarrow> route \<Rightarrow> result" where
  "trackPageView e s r =
    (if throws e TrackPageView then (Some (Thrown TrackPageView), s)
     else (None, emit (PageView (title r)) s))"

definition errorContent :: string where
  "errorContent = concat
    [nl, ''      <div class='', dq, ''error-page'', dq, ''>'',
     nl, ''        <h1>Oops! Something went wrong</h1>'',
     nl, ''        <p>We're having trouble loading this page. Please try again later.</p>'',
     nl, ''        <button onclick='', dq, ''location.reload()'', dq, '' class='', dq,
         ''btn btn-primary'', dq, ''>Refresh Page</button>'',
     nl, ''      </div>'',
     nl, ''    '']"

text \<open>\<open>handleRouteError\<close> logs and assigns \<open>this.appContainer.innerHTML\<close>; with no
  container the assignment is a \<open>TypeError\<close>.\<close>

definition handleRouteError :: "router \<Rightarrow> result" where
  "handleRouteError s =
    (let s1 = emit ConsoleError s in
     case appContainer s1 of
       None \<Rightarrow> (Some TypeError, s1)
     | Some a \<Rightarrow> (None, emit RouteError (s1\<lparr>appContainer := Some (a\<lparr>innerHTML := errorContent\<rparr>)\<rparr>)))"

subsection \<open>loadRoute and its callers\<close>

text \<open>The body of the \<open>try\<close> block.\<close>

definition tryBlock :: "env \<Rightarrow> router \<Rightarrow> route \<Rightarrow> result" where
  "tryBlock e s r =
    (let (content, s1) = loadComponent e s (component r) in
     andThen (andThen (andThen (andThen (andThen
       (updatePageTitle e s1 (title r))
       (\<lambda>s. updateActiveNavigation e s (path r)))
       (\<lambda>s. renderContent e s content))
       (\<lambda>s. setCurrentRoute s (path r)))
       (\<lambda>s. initializePageComponents e s (component r)))
       (\<lambda>s. trackPageView e s r))"

text \<open>\<open>catch\<close>: \<open>console.error\<close>, then \<open>handleRouteError\<close>; \<open>finally\<close>: \<open>hideLoading\<close>,
  whatever the outcome.\<close>

definition loadRoute :: "env \<Rightarrow> router \<Rightarrow> string \<Rightarrow> result" where
  "loadRoute e s p =
    (case resolve p of
       None \<Rightarrow> (Some TypeError, s)
     | Some r \<Rightarrow>
        (if currentRoute s = Some (path r) then (None, s)
         else
           (let tried = tryBlock e (showLoading s) r;
                caught = (case tried of
                            (None, s1) \<Rightarrow> (None, s1)
                          | (Some err, s1) \<Rightarrow> handleRouteError (emit ConsoleError s1))
            in (fst caught, hideLoading (snd caught)))))"

text \<open>\<open>path.replace(/^\/+/, '')\<close>.\<close>

definition normalizePath :: "string \<Rightarrow> string" where
  "normalizePath p = dropWhile (\<lambda>c. c = CHR ''/'') p"

definition navigateTo :: "env \<Rightarrow> router \<Rightarrow> string \<Rightarrow> bool \<Rightarrow> result" where
  "navigateTo e s p pushState =
    (let n = normalizePath p;
         s1 = (if pushState
               then s\<lparr>locationHash := (if n \<noteq> [] then ''#/'' @ n else ''#/'')\<rparr>
               else s)
     in loadRoute e s1 n)"

definition handleRoute :: "env \<Rightarrow> router \<Rightarrow> result" where
  "handleRoute e s =
    (let hash = drop 1 (locationHash s);
         p = (if take 1 hash = ''/'' then drop 1 hash else hash)
     in loadRoute e s p)"

subsection \<open>Overlapping calls\<close>

text \<open>
  An \<open>async\<close> method runs until an \<open>await\<close> has to wait for the outside, and the event
  loop resumes it later; other listeners and continuations run in between. The router
  waits for the outside at two places: in \<open>loadComponent\<close> for the answer of \<open>fetch\<close>
  (and then for \<open>response.text()\<close>; between the two nothing the router holds changes, so
  they are one wait here), and in \<open>renderContent\<close> for the fade timer. An \<open>await\<close> on a
  promise that is already settled continues in the same turn of the event loop, before
  any other event, and is not a cut. A suspended call is a task:
  \<^item> \<open>Fetching who c\<close>: \<open>loadComponent c\<close> waits for the network, called by \<open>who\<close>
    (\<open>loadRoute\<close> for a route, \<open>prefetchRoute\<close> for a path, or directly);
  \<^item> \<open>Fading r content\<close>: \<open>renderContent content\<close> waits for the timer, inside
    \<open>loadRoute\<close> for the route \<open>r\<close>;
  \<^item> \<open>Listener\<close>: a \<open>popstate\<close> or \<open>hashchange\<close> event is queued; both listeners call
    \<open>handleRoute\<close>.
  The functions below are the pieces of the methods between these cuts. Each returns the
  new state and the tasks the piece leaves behind.
\<close>

datatype caller = ByLoadRoute route | ByPrefetchRoute string | Direct

datatype task =
    Listener
  | Fetching caller string
  | Fading route string

type_synonym progress = "router \<times> task list"

text \<open>The \<open>catch\<close> and \<open>finally\<close> blocks of \<open>loadRoute\<close>, from the outcome of the
  \<open>try\<close> block.\<close>

definition catchFinally :: "result \<Rightarrow> router" where
  "catchFinally tried =
    (let caught = (case tried of
                     (None, s1) \<Rightarrow> (None, s1)
                   | (Some err, s1) \<Rightarrow> handleRouteError (emit ConsoleError s1))
     in hideLoading (snd caught))"

text \<open>\<open>loadComponent\<close> from the answer of the network on.\<close>

definition fetched :: "env \<Rightarrow> router \<Rightarrow> string \<Rightarrow> string \<times> router" where
  "fetched e s c =
    (case fetch e (partialUrl c) of
       Rejected \<Rightarrow> (getErrorContent c, emit ConsoleError s)
     | Response status body \<Rightarrow>
        (if \<not> ok status then (getErrorContent c, emit ConsoleError s)
         else case body of
                None \<Rightarrow> (getErrorContent c, emit ConsoleError s)
              | Some content \<Rightarrow> (content, s\<lparr>cache := (cache s)(c \<mapsto> content)\<rparr>)))"

text \<open>\<open>renderContent\<close> from the timer on.\<close>

definition swapContent :: "env \<Rightarrow> router \<Rightarrow> string \<Rightarrow> result" where
  "swapContent e s content =
    (case appContainer s of
       None \<Rightarrow> (None, s)
     | Some a1 \<Rightarrow>
        (let a2 = a1\<lparr>innerHTML := content\<rparr>;
             s2 = emit (Render content) (s\<lparr>appContainer := Some a2\<rparr>)
         in if throws e TriggerContentAnimations
            then (Some (Thrown TriggerContentAnimations), s2)
            else
              (let a3 = a2\<lparr>opacity := ''1'', transform := ''translateY(0)''\<rparr>;
                   s3 = s2\<lparr>appContainer := Some a3\<rparr>
               in if throws e ManageFocus then (Some (Thrown ManageFocus), s3)
                  else (None, s3\<lparr>appContainer :=
                          Some (a3\<lparr>innerHTML := focusHeading (innerHTML a3)\<rparr>)\<rparr>))))"

text \<open>\<open>loadRoute\<close> from the return of \<open>renderContent\<close> on, and from the timer on.\<close>

definition afterRender :: "env \<Rightarrow> result \<Rightarrow> route \<Rightarrow> router" where
  "afterRender e rendered r =
    catchFinally
      (andThen (andThen (andThen rendered
         (\<lambda>s. setCurrentRoute s (path r)))
         (\<lambda>s. initializePageComponents e s (component r)))
         (\<lambda>s. trackPageView e s r))"

definition timerFired :: "env \<Rightarrow> router \<Rightarrow> route \<Rightarrow> string \<Rightarrow> progress" where
  "timerFired e s r content = (afterRender e (swapContent e s content) r, [])"

text \<open>\<open>loadRoute\<close> from the return of \<open>loadComponent\<close> up to the timer of
  \<open>renderContent\<close> (or to its end, when there is no container or an update raises).\<close>

definition routeLoaded :: "env \<Rightarrow> router \<Rightarrow> route \<Rightarrow> string \<Rightarrow> progress" where
  "routeLoaded e s r content =
    (case andThen (updatePageTitle e s (title r)) (\<lambda>s. updateActiveNavigation e s (path r)) of
       (Some err, s1) \<Rightarrow> (catchFinally (Some err, s1), [])
     | (None, s1) \<Rightarrow>
        (case appContainer s1 of
           None \<Rightarrow> (afterRender e (None, s1) r, [])
         | Some a \<Rightarrow>
            (s1\<lparr>appContainer := Some (a\<lparr>opacity := ''0'', transform := ''translateY(20px)''\<rparr>)\<rparr>,
             [Fading r content])))"

text \<open>What the caller of \<open>loadComponent\<close> does with the returned content.\<close>

definition resume :: "env \<Rightarrow> router \<Rightarrow> caller \<Rightarrow> string \<Rightarrow> progress" where
  "resume e s who content =
    (case who of
       ByLoadRoute r \<Rightarrow> routeLoaded e s r content
     | ByPrefetchRoute p \<Rightarrow> (s\<lparr>prefetchedRoutes := insert p (prefetchedRoutes s)\<rparr>, [])
     | Direct \<Rightarrow> (s, []))"

text \<open>The beginning of each method, up to its first wait.\<close>

definition startLoadComponent :: "env \<Rightarrow> router \<Rightarrow> caller \<Rightarrow> string \<Rightarrow> progress" where
  "startLoadComponent e s who c =
    (case cache s c of
       Some content \<Rightarrow> resume e s who content
     | None \<Rightarrow> (emit (Fetch (partialUrl c)) s, [Fetching who c]))"

definition startLoadRoute :: "env \<Rightarrow> router \<Rightarrow> string \<Rightarrow> progress" where
  "startLoadRoute e s p =
    (case resolve p of
       None \<Rightarrow> (s, [])
     | Some r \<Rightarrow>
        (if currentRoute s = Some (path r) then (s, [])
         else startLoadComponent e (showLoading s) (ByLoadRoute r) (component r)))"

definition startPrefetchRoute :: "env \<Rightarrow> router \<Rightarrow> string \<Rightarrow> progress" where
  "startPrefetchRoute e s p =
    (if p \<in> prefetchedRoutes s then (s, [])
     else case defineRoutes p of
            None \<Rightarrow> (s, [])
          | Some r \<Rightarrow> startLoadComponent e s (ByPrefetchRoute p) (component r))"

definition startHandleRoute :: "env \<Rightarrow> router \<Rightarrow> progress" where
  "startHandleRoute e s =
    (let hash = drop 1 (locationHash s);
         p = (if take 1 hash = ''/'' then drop 1 hash else hash)
     in startLoadRoute e s p)"

text \<open>An assignment to \<open>window.location.hash\<close>, or a change of the address by the user
  or by history navigation: when the hash changes, the browser queues \<open>popstate\<close> and
  \<open>hashchange\<close>.\<close>

definition assignHash :: "string \<Rightarrow> router \<Rightarrow> progress" where
  "assignHash h s =
    (if locationHash s = h then (s, [])
     else (s\<lparr>locationHash := h\<rparr>, [Listener, Listener]))"

definition startNavigateTo :: "env \<Rightarrow> router \<Rightarrow> string \<Rightarrow> bool \<Rightarrow> progress" where
  "startNavigateTo e s p pushState =
    (let n = normalizePath p;
         (s1, events) = (if pushState
                          then assignHash (if n \<noteq> [] then ''#/'' @ n else ''#/'') s
                          else (s, []));
         (s2, tasks) = startLoadRoute e s1 n
     in (s2, events @ tasks))"

text \<open>The event loop hands a pending task its event: a queued event reaches its
  listener, the network answers a request, a timer fires.\<close>

definition deliver :: "env \<Rightarrow> router \<Rightarrow> task \<Rightarrow> progress" where
  "deliver e s t =
    (case t of
       Listener \<Rightarrow> startHandleRoute e s
     | Fetching who c \<Rightarrow> (let (content, s1) = fetched e s c in resume e s1 who content)
     | Fading r content \<Rightarrow> timerFired e s r content)"

text \<open>What starts a call: a click on a route link or a key (\<open>navigateTo\<close>), the
  constructor (\<open>handleRoute\<close>), a hover over a link (\<open>prefetchRoute\<close>), a direct call of
  \<open>loadRoute\<close> or \<open>loadComponent\<close>; \<open>AddressChange\<close> is a change of the address from
  outside the router. The timed loop of \<open>prefetchCriticalRoutes\<close> appears as its three
  \<open>prefetchRoute\<close> calls.\<close>

datatype call =
    NavigateTo string bool
  | AddressChange string
  | HandleRoute
  | PrefetchRoute string
  | LoadRoute string
  | LoadComponent string

definition startCall :: "env \<Rightarrow> router \<Rightarrow> call \<Rightarrow> progress" where
  "startCall e s c =
    (case c of
       NavigateTo p pushState \<Rightarrow> startNavigateTo e s p pushState
     | AddressChange h \<Rightarrow> assignHash h s
     | HandleRoute \<Rightarrow> startHandleRoute e s
     | PrefetchRoute p \<Rightarrow> startPrefetchRoute e s p
     | LoadRoute p \<Rightarrow> startLoadRoute e s p
     | LoadComponent c \<Rightarrow> startLoadComponent e s Direct c)"

text \<open>A session is the router with its pending tasks. A step starts a call or delivers
  the event of the \<open>k\<close>-th pending task; tasks may be served in any order, and each step
  has its own environment.\<close>

datatype input = Call call | Deliver nat

record session =
  state :: router
  pending :: "task list"

fun step :: "session \<Rightarrow> env \<times> input \<Rightarrow> session" where
  "step ss (e, Call c) =
     (let (s, tasks) = startCall e (state ss) c
      in \<lparr>state = s, pending = pending ss @ tasks\<rparr>)"
| "step ss (e, Deliver k) =
     (if k < length (pending ss)
      then (let (s, tasks) = deliver e (state ss) (pending ss ! k)
            in \<lparr>state = s, pending = take k (pending ss) @ drop (Suc k) (pending ss) @ tasks\<rparr>)
      else ss)"

definition run :: "session \<Rightarrow> (env \<times> input) list \<Rightarrow> session" where
  "run ss steps = foldl step ss steps"

definition idle :: "router \<Rightarrow> session" where
  "idle s = \<lparr>state = s, pending = []\<rparr>"

subsection \<open>Examples\<close>

text \<open>The router after its constructor's field initialisers, in a document that has
  the container, the loading skeleton, a description and a canonical link.\<close>

definition initial :: router where
  "initial =
    \<lparr>currentRoute = None, cache = Map.empty, prefetchedRoutes = {},
     loadingElement = Some ''block'',
     appContainer = Some \<lparr>innerHTML = [], opacity = ''1'', transform = []\<rparr>,
     documentTitle = ''Kattali Textile Ltd.'', metaDescription = Some [],
     canonical = Some [], activeLinks = {}, locationHash = [], trace = []\<rparr>"

text \<open>Environments for the examples: a network that serves every fragment, one that
  answers 500, and collaborators that do or do not raise.\<close>

definition quiet :: "phase \<Rightarrow> bool" where
  "quiet ph = False"

definition online :: env where
  "online = \<lparr>fetch = (\<lambda>url. Response 200 (Some (''<h1>'' @ url @ ''</h1>''))), throws = quiet\<rparr>"

definition failing :: env where
  "failing = \<lparr>fetch = (\<lambda>url. Response 500 (Some ''Internal Server Error'')), throws = quiet\<rparr>"

definition offline :: env where
  "offline = \<lparr>fetch = (\<lambda>url. Rejected), throws = quiet\<rparr>"

definition brokenHooks :: env where
  "brokenHooks = \<lparr>fetch = fetch online, throws = (\<lambda>ph. ph = InitializePageComponents)\<rparr>"

definition brokenTitle :: env where
  "brokenTitle = \<lparr>fetch = fetch online, throws = (\<lambda>ph. ph = UpdatePageTitle)\<rparr>"

text \<open>A network on which the fragments have been replaced by a new text.\<close>

definition republished :: env where
  "republished = \<lparr>fetch = (\<lambda>url. Response 200 (Some ''<p>new text</p>'')), throws = quiet\<rparr>"

text \<open>The page right after the constructor has called \<open>handleRoute\<close> on an empty hash,
  and a piece of a session.\<close>

definition firstLoad :: session where
  "firstLoad = run (idle initial) [(online, Call HandleRoute)]"

definition browsing :: "(env \<times> input) list" where
  "browsing =
    [(online, Deliver 0),
     (failing, Call (NavigateTo ''/news'' True)),
     (online, Call (NavigateTo ''home'' True)),
     (offline, Deliver 0)]"

subsection \<open>Vocabulary of the properties\<close>

text \<open>A request has failed when the promise rejects, the status is not ok, or the body
  cannot be read: the three ways into the \<open>catch\<close> branch of \<open>loadComponent\<close>.\<close>

definition failed :: "fetch_outcome \<Rightarrow> bool" where
  "failed out =
    (case out of Rejected \<Rightarrow> True | Response status body \<Rightarrow> \<not> ok status \<or> body = None)"

text \<open>The URLs requested from the network, in order.\<close>

fun requests :: "event list \<Rightarrow> string list" where
  "requests [] = []"
| "requests (Fetch url # tr) = url # requests tr"
| "requests (ev # tr) = requests tr"

text \<open>The state without the two fields that depend on the address: the hash and the
  canonical link computed from it.\<close>

definition withoutAddress :: "router \<Rightarrow> router" where
  "withoutAddress s = s\<lparr>canonical := None, locationHash := []\<rparr>"

text \<open>The events a call has added to the trace.\<close>

definition emitted :: "router \<Rightarrow> router \<Rightarrow> event list" where
  "emitted s s' = drop (length (trace s)) (trace s')"

text \<open>The events that mark a phase of \<open>loadRoute\<close>: the request of the fragment load,
  the title and navigation updates, the replacement of the content, the state update,
  the hooks and the page view.\<close>

fun isPhase :: "event \<Rightarrow> bool" where
  "isPhase (Fetch url) = True"
| "isPhase (PageTitle t) = True"
| "isPhase (ActiveNavigation p) = True"
| "isPhase (Render m) = True"
| "isPhase (CurrentRoute p) = True"
| "isPhase (PageComponents c) = True"
| "isPhase (PageView t) = True"
| "isPhase ev = False"

text \<open>What a complete run of the \<open>try\<close> block adds to the trace, phase by phase:
  the fragment load (nothing on a cache hit, a request otherwise, with a console error
  when it fails), the title and navigation updates, the replacement of the content
  (when there is a container), the state update, the hooks and the page view.\<close>

definition loadEvents :: "env \<Rightarrow> router \<Rightarrow> string \<Rightarrow> event list" where
  "loadEvents e s c =
    (case cache s c of
       Some m \<Rightarrow> []
     | None \<Rightarrow> Fetch (partialUrl c) # (if failed (fetch e (partialUrl c)) then [ConsoleError] else []))"

definition renderEvents :: "router \<Rightarrow> string \<Rightarrow> event list" where
  "renderEvents s m = (case appContainer s of None \<Rightarrow> [] | Some a \<Rightarrow> [Render m])"

definition afterLoad :: "router \<Rightarrow> route \<Rightarrow> string \<Rightarrow> event list" where
  "afterLoad s r m =
     [PageTitle (title r), ActiveNavigation (path r)] @ renderEvents s m
     @ [CurrentRoute (path r), PageComponents (component r), PageView (title r)]"

definition phaseSequence :: "env \<Rightarrow> router \<Rightarrow> route \<Rightarrow> event list" where
  "phaseSequence e s r =
     loadEvents e s (component r)
     @ [PageTitle (title r), ActiveNavigation (path r)]
     @ renderEvents s (fst (loadComponent e s (component r)))
     @ [CurrentRoute (path r), PageComponents (component r), PageView (title r)]"

text \<open>Some collaborator called before \<open>this.currentRoute = route.path\<close> raises.\<close>

definition raisesBeforeStateUpdate :: "env \<Rightarrow> bool" where
  "raisesBeforeStateUpdate e =
    (throws e UpdatePageTitle \<or> throws e UpdateActiveNavigation
     \<or> throws e TriggerContentAnimations \<or> throws e ManageFocus)"

text \<open>The initial router in a document without the element \<open>#app\<close>.\<close>

definition noContainer :: router where
  "noContainer = initial\<lparr>appContainer := None\<rparr>"

text \<open>A request for the fragment of \<open>c\<close> is in flight; the number of requests made
  so far for it; and the entry of \<open>c\<close> is settled: it holds \<open>m\<close> and no request for \<open>c\<close>
  is in flight.\<close>

fun fetchOf :: "task \<Rightarrow> string option" where
  "fetchOf (Fetching who c) = Some c"
| "fetchOf t = None"

definition inFlight :: "task list \<Rightarrow> string \<Rightarrow> bool" where
  "inFlight tasks c = (Some c \<in> set (map fetchOf tasks))"

definition asked :: "router \<Rightarrow> string \<Rightarrow> nat" where
  "asked s c = length (filter (\<lambda>url. url = partialUrl c) (requests (trace s)))"

definition settled :: "string \<Rightarrow> string \<Rightarrow> session \<Rightarrow> bool" where
  "settled c m ss = (cache (state ss) c = Some m \<and> \<not> inFlight (pending ss) c)"

text \<open>Two relations used to follow a piece of a method: it leaves the cache, the
  prefetched paths and the requests as they were; or it leaves the entry of \<open>c\<close>, the
  number of requests for \<open>c\<close> and the absence of a request for \<open>c\<close> as they were.\<close>

definition untouched :: "router \<Rightarrow> router \<Rightarrow> bool" where
  "untouched s s' =
    (cache s' = cache s \<and> prefetchedRoutes s' = prefetchedRoutes s
     \<and> requests (trace s') = requests (trace s))"

definition calm :: "string \<Rightarrow> string \<Rightarrow> router \<Rightarrow> progress \<Rightarrow> bool" where
  "calm c m s pr =
    (cache (fst pr) c = Some m \<and> asked (fst pr) c = asked s c \<and> \<not> inFlight (snd pr) c)"

definition visited :: "string \<Rightarrow> router" where
  "visited p = snd (loadRoute online initial p)"

section \<open>Properties\<close>

subsection \<open>Auxiliary facts\<close>

lemmas phase_defs = showLoading_def hideLoading_def updatePageTitle_def
  updateActiveNavigation_def renderContent_def setCurrentRoute_def
  initializePageComponents_def trackPageView_def handleRouteError_def emit_def andThen_def

lemmas table_defs = resolve_def defineRoutes_def routeList_def

lemmas load_defs = loadRoute_def tryBlock_def loadComponent_def phase_defs Let_def

lemmas focus_defs = headingStart_def tabindexAttribute_def dq_def nl_def

lemmas example_defs = visited_def initial_def online_def failing_def offline_def quiet_def
  brokenHooks_def brokenTitle_def partialUrl_def ok_def SEO_TITLE_TEMPLATE_def
  SEO_DEFAULT_DESCRIPTION_def SEO_CANONICAL_URL_def headingStart_def
  tabindexAttribute_def dq_def nl_def

lemma map_option_const [simp]:
  "map_option (\<lambda>_. a) (map_option f x) = map_option (\<lambda>_. a) x"
  by (cases x) simp_all

lemma mkRoute_sel [simp]:
  "path (mkRoute p c t) = p" "component (mkRoute p c t) = c" "title (mkRoute p c t) = t"
  by (simp_all add: mkRoute_def)

lemma defineRoutes_home: "defineRoutes ''home'' = Some (mkRoute ''home'' ''home'' ''Home'')"
  by (simp add: defineRoutes_def routeList_def)

lemma defineRoutes_empty: "defineRoutes [] = Some (mkRoute [] ''home'' ''Home'')"
  by (simp add: defineRoutes_def routeList_def)

lemma defineRoutes_path: "defineRoutes p = Some r \<Longrightarrow> path r = p"
  by (auto simp add: defineRoutes_def routeList_def split: if_splits)

lemma defineRoutes_component:
  "defineRoutes p = Some r \<Longrightarrow> component r = (if p = [] then ''home'' else p)"
  by (auto simp add: defineRoutes_def routeList_def split: if_splits)

lemma resolve_known: "defineRoutes p = Some r \<Longrightarrow> resolve p = Some r"
  by (simp add: resolve_def)

lemma resolve_unknown:
  "defineRoutes p = None \<Longrightarrow> resolve p = Some (mkRoute ''home'' ''home'' ''Home'')"
  by (simp add: resolve_def defineRoutes_home)

lemma resolve_total: "\<exists>r. resolve p = Some r"
  by (cases "defineRoutes p") (simp_all add: resolve_def defineRoutes_home)

lemma resolve_registered: "resolve p = Some r \<Longrightarrow> defineRoutes (path r) = Some r"
  by (cases "defineRoutes p")
     (auto simp add: resolve_def defineRoutes_home dest: defineRoutes_path)

lemma visited_about_current: "currentRoute (visited ''about'') = Some ''about''"
  by (simp add: table_defs load_defs example_defs)

subsection \<open>Re-navigation\<close>

text \<open>
  C1, at the level of paths. The guard of \<open>loadRoute\<close> compares the stored value with the
  \<^emph>\<open>path\<close> of the resolved route. For every path whose resolved route has the path
  stored in \<open>currentRoute\<close>, \<open>loadRoute\<close> returns at once and the whole state, trace
  included, is unchanged: no request, no cache write, no change of the container, of the
  title or of the loading indicator.
\<close>

theorem renavigation_same_path_noop:
  assumes "resolve p = Some r" and "currentRoute s = Some (path r)"
  shows "loadRoute e s p = (None, s)"
  using assms by (simp add: loadRoute_def)

theorem renavigation_same_path_noop_witness:
  "resolve ''about'' = Some (mkRoute ''about'' ''about'' ''About Us'')
   \<and> currentRoute (visited ''about'') = Some ''about''
   \<and> loadRoute offline (visited ''about'') ''about'' = (None, visited ''about'')"
proof -
  have r: "resolve ''about'' = Some (mkRoute ''about'' ''about'' ''About Us'')"
    by (simp add: table_defs)
  have c: "currentRoute (visited ''about'') = Some (path (mkRoute ''about'' ''about'' ''About Us''))"
    by (simp add: visited_about_current)
  show ?thesis
    using r c renavigation_same_path_noop [OF r c, of offline] by simp
qed

text \<open>
  At the level of the component the property does not hold: after the page was reached
  through the empty path the stored value is the empty string, and a navigation to
  \<open>home\<close> (same component) runs every phase again, served from the cache.
\<close>

theorem renavigation_home_alias_counterexample:
  "currentRoute (visited []) = Some []
   \<and> map_option component (resolve []) = Some ''home''
   \<and> map_option component (resolve ''home'') = Some ''home''
   \<and> loadRoute online (visited []) ''home'' \<noteq> (None, visited [])
   \<and> trace (snd (loadRoute online (visited []) ''home'')) =
       trace (visited []) @
        [ShowLoading, PageTitle ''Home'', ActiveNavigation ''home'',
         Render ''<h1>partials/home.html</h1>'', CurrentRoute ''home'',
         PageComponents ''home'', PageView ''Home'', HideLoading]
   \<and> currentRoute (visited ''home'') = Some ''home''
   \<and> loadRoute online (visited ''home'') [] \<noteq> (None, visited ''home'')"
  by (simp add: table_defs load_defs example_defs)

subsection \<open>The navigation state\<close>

text \<open>
  C2, for the value the code stores. After a call of \<open>loadRoute\<close> in which nothing raises before the
  state update, \<open>currentRoute\<close> holds the \<^emph>\<open>path\<close> of the resolved route. For every
  route but the one registered under the empty path this path is also the component
  name; for that one route the stored value is the empty string and the component is
  \<open>home\<close>.
\<close>

theorem currentRoute_is_resolved_path:
  assumes "resolve p = Some r"
    and "\<not> throws e UpdatePageTitle" and "\<not> throws e UpdateActiveNavigation"
    and "\<not> throws e TriggerContentAnimations" and "\<not> throws e ManageFocus"
  shows "currentRoute (snd (loadRoute e s p)) = Some (path r)
         \<and> component r = (if path r = [] then ''home'' else path r)"
proof
  show "currentRoute (snd (loadRoute e s p)) = Some (path r)"
    using assms
    by (auto simp add: load_defs
        split: option.splits fetch_outcome.splits prod.splits if_splits)
  show "component r = (if path r = [] then ''home'' else path r)"
    using resolve_registered [OF assms(1)] by (rule defineRoutes_component)
qed

theorem currentRoute_is_resolved_path_witness:
  "resolve ''news'' = Some (mkRoute ''news'' ''news'' ''News & Updates'')
   \<and> \<not> throws brokenHooks UpdatePageTitle \<and> \<not> throws brokenHooks UpdateActiveNavigation
   \<and> \<not> throws brokenHooks TriggerContentAnimations \<and> \<not> throws brokenHooks ManageFocus
   \<and> currentRoute (snd (loadRoute brokenHooks (visited ''about'') ''news'')) = Some ''news''"
proof -
  have r: "resolve ''news'' = Some (mkRoute ''news'' ''news'' ''News & Updates'')"
    by (simp add: table_defs)
  have t: "\<not> throws brokenHooks UpdatePageTitle" "\<not> throws brokenHooks UpdateActiveNavigation"
    "\<not> throws brokenHooks TriggerContentAnimations" "\<not> throws brokenHooks ManageFocus"
    by (simp_all add: brokenHooks_def)
  show ?thesis
    using r t currentRoute_is_resolved_path [OF r t, of "visited ''about''"] by simp
qed

text \<open>
  For the route of the empty path the stored value is not the component: the navigation completes,
  the fragment of \<open>home\<close> is in the container, and the stored value is the empty string,
  not the component name.
\<close>

theorem currentRoute_empty_path_counterexample:
  "fst (loadRoute online initial []) = None
   \<and> map_option innerHTML (appContainer (visited [])) =
        Some (''<h1 tabindex='' @ dq @ ''-1'' @ dq @ ''>partials/home.html</h1>'')
   \<and> map_option component (resolve []) = Some ''home''
   \<and> currentRoute (visited []) = Some []
   \<and> currentRoute (visited []) \<noteq> map_option component (resolve [])"
  by (simp add: table_defs load_defs example_defs)

subsection \<open>Failed requests\<close>

lemma loadComponent_failed:
  assumes "cache s c = None" and "failed (fetch e (partialUrl c))"
  shows "loadComponent e s c =
    (getErrorContent c, emit ConsoleError (emit (Fetch (partialUrl c)) s))"
  using assms
  by (simp add: loadComponent_def failed_def Let_def split: fetch_outcome.splits option.splits)

lemma getErrorContent_heading:
  "sublist ''<h2>Content Unavailable</h2>'' (getErrorContent c)"
  unfolding sublist_def getErrorContent_def
  by (rule exI [of _ "concat [nl, ''      <div class='', dq, ''error-content'', dq, ''>'', nl, ''        '']"],
      rule exI [of _ "concat [nl, ''        <p>Sorry, we're having trouble loading the '', c,
        '' page content.</p>'',
        nl, ''        <p>Please check your internet connection and try again.</p>'',
        nl, ''        <button onclick='', dq, ''location.reload()'', dq, '' class='', dq,
            ''btn btn-secondary'', dq, ''>Retry</button>'',
        nl, ''      </div>'',
        nl, ''    '']"]) simp

lemma getErrorContent_component:
  "sublist (''loading the '' @ c @ '' page content.'') (getErrorContent c)"
  unfolding sublist_def getErrorContent_def
  by (rule exI [of _ "concat [nl, ''      <div class='', dq, ''error-content'', dq, ''>'',
        nl, ''        <h2>Content Unavailable</h2>'',
        nl, ''        <p>Sorry, we're having trouble '']"],
      rule exI [of _ "concat [''</p>'',
        nl, ''        <p>Please check your internet connection and try again.</p>'',
        nl, ''        <button onclick='', dq, ''location.reload()'', dq, '' class='', dq,
            ''btn btn-secondary'', dq, ''>Retry</button>'',
        nl, ''      </div>'',
        nl, ''    '']"]) simp

lemma focusHeading_getErrorContent:
  "focusHeading (getErrorContent c) =
     concat
             [nl, ''      <div class='', dq, ''error-content'', dq, ''>'',
              nl, ''        <h2 tabindex='', dq, ''-1'', dq, ''>Content Unavailable</h2>'',
              nl, ''        <p>Sorry, we're having trouble loading the '', c, '' page content.</p>'',
              nl, ''        <p>Please check your internet connection and try again.</p>'',
              nl, ''        <button onclick='', dq, ''location.reload()'', dq, '' class='', dq,
                  ''btn btn-secondary'', dq, ''>Retry</button>'',
              nl, ''      </div>'',
              nl, ''    '']"
  by (simp add: getErrorContent_def focus_defs)

text \<open>
  C3. When the request for a component that is not cached fails, \<open>loadComponent\<close>
  returns the fallback fragment of that component, with the heading
  \<open>Content Unavailable\<close> and the component's name in its text, and leaves the cache as it
  was. A \<open>loadRoute\<close> that needs this component (with the container present and no
  collaborator raising) returns normally; the container then holds that fragment, its
  heading marked by \<open>manageFocus\<close>, faded in; the cache is unchanged and the loading
  indicator is hidden.
\<close>

theorem fetch_failure_fallback:
  assumes "cache s c = None" and "failed (fetch e (partialUrl c))"
  shows "fst (loadComponent e s c) = getErrorContent c
       \<and> sublist ''<h2>Content Unavailable</h2>'' (fst (loadComponent e s c))
       \<and> sublist (''loading the '' @ c @ '' page content.'') (fst (loadComponent e s c))
       \<and> cache (snd (loadComponent e s c)) = cache s
       \<and> (\<forall>p r a. resolve p = Some r \<and> component r = c \<and> currentRoute s \<noteq> Some (path r)
              \<and> (\<forall>ph. \<not> throws e ph) \<and> appContainer s = Some a \<longrightarrow>
            fst (loadRoute e s p) = None
            \<and> appContainer (snd (loadRoute e s p)) =
                Some (a\<lparr>innerHTML :=
                          concat
             [nl, ''      <div class='', dq, ''error-content'', dq, ''>'',
              nl, ''        <h2 tabindex='', dq, ''-1'', dq, ''>Content Unavailable</h2>'',
              nl, ''        <p>Sorry, we're having trouble loading the '', c, '' page content.</p>'',
              nl, ''        <p>Please check your internet connection and try again.</p>'',
              nl, ''        <button onclick='', dq, ''location.reload()'', dq, '' class='', dq,
                  ''btn btn-secondary'', dq, ''>Retry</button>'',
              nl, ''      </div>'',
              nl, ''    ''],
                        opacity := ''1'', transform := ''translateY(0)''\<rparr>)
            \<and> cache (snd (loadRoute e s p)) = cache s
            \<and> loadingElement (snd (loadRoute e s p)) =
                map_option (\<lambda>_. ''none'') (loadingElement s))"
proof -
  have lc: "loadComponent e s c =
      (getErrorContent c, emit ConsoleError (emit (Fetch (partialUrl c)) s))"
    using assms by (rule loadComponent_failed)
  have one: "fst (loadComponent e s c) = getErrorContent c"
    by (simp add: lc)
  have two: "cache (snd (loadComponent e s c)) = cache s"
    by (simp add: lc emit_def)
  have h1: "sublist ''<h2>Content Unavailable</h2>'' (fst (loadComponent e s c))"
    unfolding one by (rule getErrorContent_heading)
  have h2: "sublist (''loading the '' @ c @ '' page content.'') (fst (loadComponent e s c))"
    unfolding one by (rule getErrorContent_component)
  have route: "fst (loadRoute e s p) = None
      \<and> appContainer (snd (loadRoute e s p)) =
          Some (a\<lparr>innerHTML :=
                    concat
             [nl, ''      <div class='', dq, ''error-content'', dq, ''>'',
              nl, ''        <h2 tabindex='', dq, ''-1'', dq, ''>Content Unavailable</h2>'',
              nl, ''        <p>Sorry, we're having trouble loading the '', c, '' page content.</p>'',
              nl, ''        <p>Please check your internet connection and try again.</p>'',
              nl, ''        <button onclick='', dq, ''location.reload()'', dq, '' class='', dq,
                  ''btn btn-secondary'', dq, ''>Retry</button>'',
              nl, ''      </div>'',
              nl, ''    ''],
                  opacity := ''1'', transform := ''translateY(0)''\<rparr>)
      \<and> cache (snd (loadRoute e s p)) = cache s
      \<and> loadingElement (snd (loadRoute e s p)) = map_option (\<lambda>_. ''none'') (loadingElement s)"
    if h: "resolve p = Some r" "component r = c" "currentRoute s \<noteq> Some (path r)"
      "\<forall>ph. \<not> throws e ph" "appContainer s = Some a" for p r a
  proof -
    have "cache (showLoading s) c = None"
      using assms(1) by (simp add: showLoading_def emit_def)
    then have "loadComponent e (showLoading s) c =
        (getErrorContent c, emit ConsoleError (emit (Fetch (partialUrl c)) (showLoading s)))"
      using assms(2) by (rule loadComponent_failed)
    then have "fst (loadRoute e s p) = None
      \<and> appContainer (snd (loadRoute e s p)) =
          Some (a\<lparr>innerHTML := focusHeading (getErrorContent c),
                  opacity := ''1'', transform := ''translateY(0)''\<rparr>)
      \<and> cache (snd (loadRoute e s p)) = cache s
      \<and> loadingElement (snd (loadRoute e s p)) = map_option (\<lambda>_. ''none'') (loadingElement s)"
      using h by (simp add: loadRoute_def tryBlock_def phase_defs Let_def)
    then show ?thesis
      by (simp only: focusHeading_getErrorContent)
  qed
  show ?thesis
    using one h1 h2 two route by blast
qed

theorem fetch_failure_fallback_witness:
  "cache (visited ''about'') ''news'' = None
   \<and> failed (fetch failing (partialUrl ''news''))
   \<and> resolve ''news'' = Some (mkRoute ''news'' ''news'' ''News & Updates'')
   \<and> currentRoute (visited ''about'') \<noteq> Some ''news''
   \<and> (\<forall>ph. \<not> throws failing ph)
   \<and> fst (loadComponent failing (visited ''about'') ''news'') = getErrorContent ''news''
   \<and> cache (snd (loadComponent failing (visited ''about'') ''news'')) = cache (visited ''about'')
   \<and> fst (loadRoute failing (visited ''about'') ''news'') = None
   \<and> map_option innerHTML (appContainer (snd (loadRoute failing (visited ''about'') ''news'')))
        = Some (concat
             [nl, ''      <div class='', dq, ''error-content'', dq, ''>'',
              nl, ''        <h2 tabindex='', dq, ''-1'', dq, ''>Content Unavailable</h2>'',
              nl, ''        <p>Sorry, we're having trouble loading the '', ''news'', '' page content.</p>'',
              nl, ''        <p>Please check your internet connection and try again.</p>'',
              nl, ''        <button onclick='', dq, ''location.reload()'', dq, '' class='', dq,
                  ''btn btn-secondary'', dq, ''>Retry</button>'',
              nl, ''      </div>'',
              nl, ''    ''])
   \<and> cache (snd (loadRoute failing (visited ''about'') ''news'')) = cache (visited ''about'')"
proof -
  let ?s = "visited ''about''"
  let ?a = "\<lparr>innerHTML = ''<h1 tabindex='' @ dq @ ''-1'' @ dq @ ''>partials/about.html</h1>'',
             opacity = ''1'', transform = ''translateY(0)''\<rparr>"
  have c: "cache ?s ''news'' = None"
    by (simp add: table_defs load_defs example_defs)
  have f: "failed (fetch failing (partialUrl ''news''))"
    by (simp add: failed_def failing_def ok_def)
  have r: "resolve ''news'' = Some (mkRoute ''news'' ''news'' ''News & Updates'')"
    by (simp add: table_defs)
  have n: "currentRoute ?s \<noteq> Some ''news''"
    by (simp add: visited_about_current)
  have q: "\<forall>ph. \<not> throws failing ph"
    by (simp add: failing_def quiet_def)
  have a: "appContainer ?s = Some ?a"
    by (simp add: table_defs load_defs example_defs)
  have pre: "resolve ''news'' = Some (mkRoute ''news'' ''news'' ''News & Updates'')
      \<and> component (mkRoute ''news'' ''news'' ''News & Updates'') = ''news''
      \<and> currentRoute ?s \<noteq> Some (path (mkRoute ''news'' ''news'' ''News & Updates''))
      \<and> (\<forall>ph. \<not> throws failing ph) \<and> appContainer ?s = Some ?a"
    using r n q a by simp
  from fetch_failure_fallback [OF c f] pre
  have "fst (loadComponent failing ?s ''news'') = getErrorContent ''news''
      \<and> cache (snd (loadComponent failing ?s ''news'')) = cache ?s
      \<and> fst (loadRoute failing ?s ''news'') = None
      \<and> appContainer (snd (loadRoute failing ?s ''news'')) =
          Some (?a\<lparr>innerHTML := concat
             [nl, ''      <div class='', dq, ''error-content'', dq, ''>'',
              nl, ''        <h2 tabindex='', dq, ''-1'', dq, ''>Content Unavailable</h2>'',
              nl, ''        <p>Sorry, we're having trouble loading the '', ''news'', '' page content.</p>'',
              nl, ''        <p>Please check your internet connection and try again.</p>'',
              nl, ''        <button onclick='', dq, ''location.reload()'', dq, '' class='', dq,
                  ''btn btn-secondary'', dq, ''>Retry</button>'',
              nl, ''      </div>'',
              nl, ''    ''], opacity := ''1'',
                  transform := ''translateY(0)''\<rparr>)
      \<and> cache (snd (loadRoute failing ?s ''news'')) = cache ?s"
    by blast
  then show ?thesis
    using c f r n q by simp
qed

subsection \<open>Facts on the loader and on prefetching\<close>

lemma loadComponent_hit: "cache s c = Some m \<Longrightarrow> loadComponent e s c = (m, s)"
  by (simp add: loadComponent_def)

lemma requests_append [simp]: "requests (xs @ ys) = requests xs @ requests ys"
  by (induction xs rule: requests.induct) simp_all

lemma loadComponent_miss_requests:
  "cache s c = None \<Longrightarrow>
   requests (trace (snd (loadComponent e s c))) = requests (trace s) @ [partialUrl c]"
  by (simp add: loadComponent_def emit_def Let_def split: fetch_outcome.splits option.splits)

lemma prefetched_loadComponent [simp]:
  "prefetchedRoutes (snd (loadComponent e s c)) = prefetchedRoutes s"
  by (simp add: loadComponent_def emit_def Let_def split: fetch_outcome.splits option.splits)

lemma prefetched_loadRoute [simp]:
  "prefetchedRoutes (snd (loadRoute e s p)) = prefetchedRoutes s"
  by (auto simp add: load_defs
      split: option.splits fetch_outcome.splits prod.splits if_splits)

lemma prefetched_prefetchRoute:
  "prefetchedRoutes s \<subseteq> prefetchedRoutes (prefetchRoute e s p)"
  by (auto simp add: prefetchRoute_def Let_def split: option.splits)

lemma prefetchRoute_skip: "p \<in> prefetchedRoutes s \<Longrightarrow> prefetchRoute e s p = s"
  by (simp add: prefetchRoute_def)

lemma prefetchRoute_adds:
  "defineRoutes p = Some r \<Longrightarrow> p \<in> prefetchedRoutes (prefetchRoute e s p)"
  by (simp add: prefetchRoute_def Let_def)

subsection \<open>Unknown paths\<close>

lemma andThen_withoutAddress:
  assumes "\<And>s. f (withoutAddress s) = apsnd withoutAddress (g s)"
  shows "andThen (apsnd withoutAddress x) f = apsnd withoutAddress (andThen x g)"
  using assms by (cases x) (simp add: andThen_def split: option.splits)

lemma loadComponent_withoutAddress:
  "loadComponent e (withoutAddress s) c = apsnd withoutAddress (loadComponent e s c)"
  by (simp add: loadComponent_def emit_def withoutAddress_def Let_def
      split: option.splits fetch_outcome.splits)

lemma phases_withoutAddress:
  "showLoading (withoutAddress s) = withoutAddress (showLoading s)"
  "hideLoading (withoutAddress s) = withoutAddress (hideLoading s)"
  "emit ev (withoutAddress s) = withoutAddress (emit ev s)"
  "updatePageTitle e (withoutAddress s) t = apsnd withoutAddress (updatePageTitle e s t)"
  "updateActiveNavigation e (withoutAddress s) p = apsnd withoutAddress (updateActiveNavigation e s p)"
  "renderContent e (withoutAddress s) m = apsnd withoutAddress (renderContent e s m)"
  "setCurrentRoute (withoutAddress s) p = apsnd withoutAddress (setCurrentRoute s p)"
  "initializePageComponents e (withoutAddress s) c = apsnd withoutAddress (initializePageComponents e s c)"
  "trackPageView e (withoutAddress s) r = apsnd withoutAddress (trackPageView e s r)"
  "handleRouteError (withoutAddress s) = apsnd withoutAddress (handleRouteError s)"
  by (simp_all add: phase_defs withoutAddress_def Let_def split: option.splits)

lemma tryBlock_withoutAddress:
  "tryBlock e (withoutAddress s) r = apsnd withoutAddress (tryBlock e s r)"
  by (simp add: tryBlock_def loadComponent_withoutAddress split_beta
      andThen_withoutAddress phases_withoutAddress)

lemma loadRoute_withoutAddress:
  "loadRoute e (withoutAddress s) p = apsnd withoutAddress (loadRoute e s p)"
proof (cases "resolve p")
  case None
  then show ?thesis by (simp add: loadRoute_def)
next
  case (Some r)
  have cur: "currentRoute (withoutAddress s) = currentRoute s"
    by (simp add: withoutAddress_def)
  show ?thesis
    by (cases "tryBlock e (showLoading s) r")
       (simp add: loadRoute_def Some cur Let_def phases_withoutAddress tryBlock_withoutAddress
          split: option.splits)
qed

lemma withoutAddress_hash [simp]: "withoutAddress (s\<lparr>locationHash := h\<rparr>) = withoutAddress s"
  by (simp add: withoutAddress_def)

lemma loadRoute_any_hash:
  "fst (loadRoute e (s\<lparr>locationHash := h\<rparr>) p) = fst (loadRoute e s p)"
  "withoutAddress (snd (loadRoute e (s\<lparr>locationHash := h\<rparr>) p)) = withoutAddress (snd (loadRoute e s p))"
proof -
  have "apsnd withoutAddress (loadRoute e (s\<lparr>locationHash := h\<rparr>) p) =
        apsnd withoutAddress (loadRoute e s p)"
    by (simp add: loadRoute_withoutAddress [symmetric])
  then show "fst (loadRoute e (s\<lparr>locationHash := h\<rparr>) p) = fst (loadRoute e s p)"
    and "withoutAddress (snd (loadRoute e (s\<lparr>locationHash := h\<rparr>) p)) = withoutAddress (snd (loadRoute e s p))"
    by (simp_all add: apsnd_def map_prod_def split_beta prod_eq_iff)
qed

lemma loadRoute_quiet:
  assumes "resolve q = Some r" and "\<forall>ph. \<not> throws e ph"
  shows "fst (loadRoute e s q) = None \<and> currentRoute (snd (loadRoute e s q)) = Some (path r)"
  using assms
  by (auto simp add: load_defs
      split: option.splits fetch_outcome.splits prod.splits if_splits)

lemma loadRoute_unknown: "defineRoutes p = None \<Longrightarrow> loadRoute e s p = loadRoute e s ''home''"
  by (simp add: loadRoute_def resolve_def defineRoutes_home)

text \<open>
  C6. A path that is not registered, after the leading slashes are stripped, resolves to
  the \<open>home\<close> route, and \<open>loadRoute\<close> does for it exactly what it does for \<open>home\<close>.
  \<open>navigateTo\<close> with such a path has the same outcome as \<open>navigateTo\<close> with \<open>home\<close>
  and leaves the same state, up to the address hash (which keeps the path as typed) and
  the canonical link computed from it; no error is raised by the lookup, and with no
  collaborator raising the call returns normally with \<open>home\<close> as the current route.
\<close>

theorem unknown_path_is_home:
  assumes "defineRoutes (normalizePath q) = None"
  shows "resolve (normalizePath q) = Some (mkRoute ''home'' ''home'' ''Home'')
       \<and> resolve (normalizePath q) = resolve ''home''
       \<and> loadRoute e s (normalizePath q) = loadRoute e s ''home''
       \<and> fst (navigateTo e s q b) = fst (navigateTo e s ''home'' b)
       \<and> withoutAddress (snd (navigateTo e s q b)) = withoutAddress (snd (navigateTo e s ''home'' b))
       \<and> ((\<forall>ph. \<not> throws e ph) \<longrightarrow>
            fst (navigateTo e s q b) = None
            \<and> currentRoute (snd (navigateTo e s q b)) = Some ''home'')"
proof -
  have res: "resolve (normalizePath q) = Some (mkRoute ''home'' ''home'' ''Home'')"
    using assms by (rule resolve_unknown)
  have home: "resolve ''home'' = Some (mkRoute ''home'' ''home'' ''Home'')"
    by (simp add: resolve_def defineRoutes_home)
  have nh: "normalizePath ''home'' = ''home''"
    by (simp add: normalizePath_def)
  have nav: "navigateTo e s q b =
      loadRoute e (if b then s\<lparr>locationHash := (if normalizePath q \<noteq> [] then ''#/'' @ normalizePath q else ''#/'')\<rparr> else s) ''home''"
    using assms by (simp add: navigateTo_def Let_def loadRoute_unknown)
  have navh: "navigateTo e s ''home'' b =
      loadRoute e (if b then s\<lparr>locationHash := ''#/home''\<rparr> else s) ''home''"
    by (simp add: navigateTo_def Let_def nh)
  have quiet: "fst (navigateTo e s q b) = None
      \<and> currentRoute (snd (navigateTo e s q b)) = Some ''home''" if "\<forall>ph. \<not> throws e ph"
    using loadRoute_quiet [OF home that] by (simp add: nav)
  show ?thesis
    using res home quiet
    by (simp add: loadRoute_unknown [OF assms] nav navh loadRoute_any_hash)
qed

theorem unknown_path_is_home_witness:
  "defineRoutes (normalizePath ''/unknown-page'') = None
   \<and> (\<forall>ph. \<not> throws online ph)
   \<and> resolve (normalizePath ''/unknown-page'') = resolve ''home''
   \<and> fst (navigateTo online initial ''/unknown-page'' True) = None
   \<and> currentRoute (snd (navigateTo online initial ''/unknown-page'' True)) = Some ''home''
   \<and> withoutAddress (snd (navigateTo online initial ''/unknown-page'' True)) =
       withoutAddress (snd (navigateTo online initial ''home'' True))"
proof -
  have d: "defineRoutes (normalizePath ''/unknown-page'') = None"
    by (simp add: normalizePath_def defineRoutes_def routeList_def)
  have q: "\<forall>ph. \<not> throws online ph"
    by (simp add: online_def quiet_def)
  show ?thesis
    using d q unknown_path_is_home [OF d, of online initial True] by blast
qed

subsection \<open>Cleanup\<close>

lemma loadRoute_cleanup:
  assumes "resolve p = Some r" and "currentRoute s \<noteq> Some (path r)"
  shows "loadingElement (snd (loadRoute e s p)) = map_option (\<lambda>_. ''none'') (loadingElement s)"
    and "last (trace (snd (loadRoute e s p))) = HideLoading"
    and "fst (loadRoute e s p) \<noteq> Some (Thrown ph)"
    and "appContainer s \<noteq> None \<Longrightarrow> fst (loadRoute e s p) = None"
  using assms
  by (auto simp add: load_defs
      split: option.splits fetch_outcome.splits prod.splits if_splits)

text \<open>
  C7. Every call of \<open>loadRoute\<close> that gets past the guard shows the loading indicator
  and hides it again as its last step, whatever the network answers and whichever
  collaborator raises. An exception raised inside the \<open>try\<close> block never leaves
  \<open>loadRoute\<close>; with the container present the call returns normally. The router then
  stays usable: a later navigation in which nothing raises returns normally and sets the
  current route.
\<close>

theorem loading_hidden_on_every_exit:
  assumes "resolve p = Some r" and "currentRoute s \<noteq> Some (path r)"
  shows "loadingElement (snd (loadRoute e s p)) = map_option (\<lambda>_. ''none'') (loadingElement s)
       \<and> last (trace (snd (loadRoute e s p))) = HideLoading
       \<and> (\<forall>ph. fst (loadRoute e s p) \<noteq> Some (Thrown ph))
       \<and> (appContainer s \<noteq> None \<longrightarrow> fst (loadRoute e s p) = None)
       \<and> (\<forall>e' q r'. resolve q = Some r' \<and> (\<forall>ph. \<not> throws e' ph) \<longrightarrow>
            fst (loadRoute e' (snd (loadRoute e s p)) q) = None
            \<and> currentRoute (snd (loadRoute e' (snd (loadRoute e s p)) q)) = Some (path r'))"
  using loadRoute_cleanup [OF assms] loadRoute_quiet by blast

theorem loading_hidden_on_every_exit_witness:
  "resolve ''news'' = Some (mkRoute ''news'' ''news'' ''News & Updates'')
   \<and> currentRoute (visited ''about'') \<noteq> Some ''news''
   \<and> throws brokenHooks InitializePageComponents
   \<and> appContainer (visited ''about'') \<noteq> None
   \<and> loadingElement (visited ''about'') = Some ''none''
   \<and> loadingElement (snd (loadRoute brokenHooks (visited ''about'') ''news'')) = Some ''none''
   \<and> fst (loadRoute brokenHooks (visited ''about'') ''news'') = None
   \<and> resolve ''contact'' = Some (mkRoute ''contact'' ''contact'' ''Contact Us'')
   \<and> (\<forall>ph. \<not> throws failing ph)
   \<and> currentRoute (snd (loadRoute failing (snd (loadRoute brokenHooks (visited ''about'') ''news''))
        ''contact'')) = Some ''contact''"
proof -
  let ?s = "visited ''about''"
  have r: "resolve ''news'' = Some (mkRoute ''news'' ''news'' ''News & Updates'')"
    by (simp add: table_defs)
  have n: "currentRoute ?s \<noteq> Some (path (mkRoute ''news'' ''news'' ''News & Updates''))"
    by (simp add: visited_about_current)
  have t: "throws brokenHooks InitializePageComponents"
    by (simp add: brokenHooks_def)
  have a: "appContainer ?s \<noteq> None" "loadingElement ?s = Some ''none''"
    by (simp_all add: table_defs load_defs example_defs)
  have r': "resolve ''contact'' = Some (mkRoute ''contact'' ''contact'' ''Contact Us'')"
    by (simp add: table_defs)
  have q: "\<forall>ph. \<not> throws failing ph"
    by (simp add: failing_def quiet_def)
  from loading_hidden_on_every_exit [OF r n, of brokenHooks] a r' q
  have "loadingElement (snd (loadRoute brokenHooks ?s ''news'')) = Some ''none''
      \<and> fst (loadRoute brokenHooks ?s ''news'') = None
      \<and> currentRoute (snd (loadRoute failing (snd (loadRoute brokenHooks ?s ''news'')) ''contact''))
          = Some (path (mkRoute ''contact'' ''contact'' ''Contact Us''))"
    by simp
  then show ?thesis
    using r n t a r' q by simp
qed

text \<open>
  In a document without the container, \<open>handleRouteError\<close> itself fails on
  \<open>this.appContainer.innerHTML\<close>: the caught exception is not rethrown, a \<open>TypeError\<close>
  takes its place, after \<open>finally\<close> has hidden the indicator.
\<close>

lemma handleRouteError_without_container:
  "fst (loadRoute brokenHooks noContainer ''news'') = Some TypeError
   \<and> loadingElement (snd (loadRoute brokenHooks noContainer ''news'')) = Some ''none''"
  by (simp add: noContainer_def table_defs load_defs example_defs)

subsection \<open>Order of the phases\<close>

lemmas order_defs = emitted_def phaseSequence_def loadEvents_def renderEvents_def failed_def

lemma loadComponent_trace:
  "trace (snd (loadComponent e s c)) = trace s @ loadEvents e s c"
  by (simp add: loadComponent_def loadEvents_def failed_def emit_def Let_def
      split: option.splits fetch_outcome.splits)

lemma loadComponent_container [simp]:
  "appContainer (snd (loadComponent e s c)) = appContainer s"
  by (simp add: loadComponent_def emit_def Let_def split: option.splits fetch_outcome.splits)

lemma loadComponent_showLoading:
  "fst (loadComponent e (showLoading s) c) = fst (loadComponent e s c)"
  "loadEvents e (showLoading s) c = loadEvents e s c"
  "renderEvents (showLoading s) m = renderEvents s m"
  by (simp_all add: loadComponent_def loadEvents_def renderEvents_def showLoading_def emit_def
      Let_def split: option.splits fetch_outcome.splits)

lemma chain_trace:
  fixes e s r m
  defines "c \<equiv> andThen (andThen (andThen (andThen (andThen
       (updatePageTitle e s (title r))
       (\<lambda>s. updateActiveNavigation e s (path r)))
       (\<lambda>s. renderContent e s m))
       (\<lambda>s. setCurrentRoute s (path r)))
       (\<lambda>s. initializePageComponents e s (component r)))
       (\<lambda>s. trackPageView e s r)"
  shows "take (length (trace s)) (trace (snd c)) = trace s"
    and "prefix (drop (length (trace s)) (trace (snd c))) (afterLoad s r m)"
    and "(\<forall>ph. \<not> throws e ph) \<Longrightarrow> fst c = None \<and> drop (length (trace s)) (trace (snd c)) = afterLoad s r m"
  unfolding c_def
  by (auto simp add: phase_defs afterLoad_def renderEvents_def Let_def
      split: option.splits if_splits)

lemma loadRoute_finish:
  assumes "resolve p = Some r" and "currentRoute s \<noteq> Some (path r)"
  shows "\<exists>errs. trace (snd (loadRoute e s p)) =
            trace (snd (tryBlock e (showLoading s) r)) @ errs @ [HideLoading]
          \<and> filter isPhase errs = []
          \<and> (fst (tryBlock e (showLoading s) r) = None \<longrightarrow> errs = [])"
proof (cases "tryBlock e (showLoading s) r")
  case (Pair x s2)
  show ?thesis
  proof (cases x)
    case None
    then have "trace (snd (loadRoute e s p)) = trace s2 @ [] @ [HideLoading]"
      using assms Pair by (simp add: loadRoute_def hideLoading_def emit_def)
    then show ?thesis using Pair by auto
  next
    case (Some err)
    show ?thesis
    proof (cases "appContainer s2")
      case None
      then have "trace (snd (loadRoute e s p)) =
          trace s2 @ [ConsoleError, ConsoleError] @ [HideLoading]"
        using assms Pair Some
        by (simp add: loadRoute_def handleRouteError_def hideLoading_def emit_def)
      moreover have "filter isPhase [ConsoleError, ConsoleError] = []" by simp
      ultimately show ?thesis using Pair Some by fastforce
    next
      case (Some a)
      then have "trace (snd (loadRoute e s p)) =
          trace s2 @ [ConsoleError, ConsoleError, RouteError] @ [HideLoading]"
        using assms Pair \<open>x = Some err\<close>
        by (simp add: loadRoute_def handleRouteError_def hideLoading_def emit_def)
      moreover have "filter isPhase [ConsoleError, ConsoleError, RouteError] = []" by simp
      ultimately show ?thesis using Pair \<open>x = Some err\<close> by fastforce
    qed
  qed
qed

lemma filter_isPhase_afterLoad [simp]: "filter isPhase (afterLoad s r m) = afterLoad s r m"
  by (simp add: afterLoad_def renderEvents_def split: option.splits)

lemma filter_prefix_id:
  assumes "prefix xs ys" and "filter P ys = ys"
  shows "filter P xs = xs"
proof -
  from assms(1) obtain zs where "ys = xs @ zs" by (auto simp add: prefix_def)
  with assms(2) have "filter P xs @ filter P zs = xs @ zs" by simp
  moreover have "length (filter P xs) \<le> length xs" by simp
  moreover have "length (filter P zs) \<le> length zs" by simp
  ultimately show ?thesis
    by (metis append_eq_append_conv length_append add_le_cancel_left le_antisym
        add_mono_thms_linordered_semiring(1) nat_add_left_cancel_le)
qed

lemma tryBlock_emitted:
  "\<exists>ran. trace (snd (tryBlock e (showLoading s) r)) =
            trace s @ ShowLoading # loadEvents e s (component r) @ ran
        \<and> prefix ran (afterLoad s r (fst (loadComponent e s (component r))))
        \<and> ((\<forall>ph. \<not> throws e ph) \<longrightarrow>
             fst (tryBlock e (showLoading s) r) = None
             \<and> ran = afterLoad s r (fst (loadComponent e s (component r))))"
proof -
  let ?s0 = "showLoading s"
  let ?s1 = "snd (loadComponent e ?s0 (component r))"
  let ?m = "fst (loadComponent e s (component r))"
  let ?c = "tryBlock e ?s0 r"
  define ran where "ran = drop (length (trace ?s1)) (trace (snd ?c))"
  have c: "?c = andThen (andThen (andThen (andThen (andThen
       (updatePageTitle e ?s1 (title r))
       (\<lambda>s. updateActiveNavigation e s (path r)))
       (\<lambda>s. renderContent e s ?m))
       (\<lambda>s. setCurrentRoute s (path r)))
       (\<lambda>s. initializePageComponents e s (component r)))
       (\<lambda>s. trackPageView e s r)"
    by (simp add: tryBlock_def split_beta loadComponent_showLoading)
  have s1: "trace ?s1 = trace s @ ShowLoading # loadEvents e s (component r)"
    by (simp add: loadComponent_trace loadComponent_showLoading)
       (simp add: showLoading_def emit_def)
  have al: "afterLoad ?s1 r ?m = afterLoad s r ?m"
    by (simp add: afterLoad_def renderEvents_def showLoading_def emit_def)
  have "take (length (trace ?s1)) (trace (snd ?c)) = trace ?s1"
    unfolding c by (rule chain_trace(1))
  then have "trace (snd ?c) = trace ?s1 @ ran"
    unfolding ran_def by (metis append_take_drop_id)
  then have grow: "trace (snd ?c) = trace s @ ShowLoading # loadEvents e s (component r) @ ran"
    by (simp add: s1)
  have pre: "prefix ran (afterLoad s r ?m)"
    unfolding ran_def c using chain_trace(2) [of ?s1 e r ?m] by (simp add: al)
  have full: "fst ?c = None \<and> ran = afterLoad s r ?m" if "\<forall>ph. \<not> throws e ph"
    unfolding ran_def c using chain_trace(3) [of e ?s1 r ?m] that by (simp add: al)
  show ?thesis
    using grow pre full by blast
qed

text \<open>
  C8. In every call of \<open>loadRoute\<close> that gets past the guard, the phase events the call
  adds to the trace are an initial segment of the sequence: fragment load, title update,
  navigation update, render, state update, hooks, page view. When no collaborator
  raises, the call adds exactly: show loading, that whole sequence, hide loading.
\<close>

theorem phases_in_order:
  assumes "resolve p = Some r" and "currentRoute s \<noteq> Some (path r)"
  shows "prefix (filter isPhase (emitted s (snd (loadRoute e s p))))
                (filter isPhase (phaseSequence e s r))
       \<and> ((\<forall>ph. \<not> throws e ph) \<longrightarrow>
            emitted s (snd (loadRoute e s p)) = ShowLoading # phaseSequence e s r @ [HideLoading])"
proof -
  let ?m = "fst (loadComponent e s (component r))"
  let ?L = "loadEvents e s (component r)"
  obtain errs where fin:
    "trace (snd (loadRoute e s p)) = trace (snd (tryBlock e (showLoading s) r)) @ errs @ [HideLoading]"
    "filter isPhase errs = []"
    "fst (tryBlock e (showLoading s) r) = None \<longrightarrow> errs = []"
    using loadRoute_finish [OF assms] by blast
  obtain ran where tb:
    "trace (snd (tryBlock e (showLoading s) r)) = trace s @ ShowLoading # ?L @ ran"
    "prefix ran (afterLoad s r ?m)"
    "(\<forall>ph. \<not> throws e ph) \<longrightarrow>
       fst (tryBlock e (showLoading s) r) = None \<and> ran = afterLoad s r ?m"
    using tryBlock_emitted by blast
  have em: "emitted s (snd (loadRoute e s p)) = ShowLoading # ?L @ ran @ errs @ [HideLoading]"
    by (simp add: emitted_def fin(1) tb(1))
  have ps: "phaseSequence e s r = ?L @ afterLoad s r ?m"
    by (simp add: phaseSequence_def afterLoad_def)
  have "filter isPhase ran = ran"
    using tb(2) filter_isPhase_afterLoad by (rule filter_prefix_id)
  then have "filter isPhase (emitted s (snd (loadRoute e s p))) = filter isPhase ?L @ ran"
    by (simp add: em fin(2))
  then have first: "prefix (filter isPhase (emitted s (snd (loadRoute e s p))))
      (filter isPhase (phaseSequence e s r))"
    using tb(2) by (simp add: ps)
  have second: "emitted s (snd (loadRoute e s p)) = ShowLoading # phaseSequence e s r @ [HideLoading]"
    if "\<forall>ph. \<not> throws e ph"
    using that tb(3) fin(3) by (simp add: em ps)
  show ?thesis
    using first second by blast
qed

theorem phases_in_order_witness:
  "resolve ''news'' = Some (mkRoute ''news'' ''news'' ''News & Updates'')
   \<and> currentRoute (visited ''about'') \<noteq> Some ''news''
   \<and> (\<forall>ph. \<not> throws failing ph)
   \<and> emitted (visited ''about'') (snd (loadRoute failing (visited ''about'') ''news'')) =
       [ShowLoading, Fetch ''partials/news.html'', ConsoleError,
        PageTitle ''News & Updates'', ActiveNavigation ''news'',
        Render (getErrorContent ''news''), CurrentRoute ''news'',
        PageComponents ''news'', PageView ''News & Updates'', HideLoading]"
proof -
  let ?s = "visited ''about''"
  let ?r = "mkRoute ''news'' ''news'' ''News & Updates''"
  have r: "resolve ''news'' = Some ?r"
    by (simp add: table_defs)
  have n: "currentRoute ?s \<noteq> Some (path ?r)"
    by (simp add: visited_about_current)
  have q: "\<forall>ph. \<not> throws failing ph"
    by (simp add: failing_def quiet_def)
  have ps: "phaseSequence failing ?s ?r =
      [Fetch ''partials/news.html'', ConsoleError, PageTitle ''News & Updates'',
       ActiveNavigation ''news'', Render (getErrorContent ''news''), CurrentRoute ''news'',
       PageComponents ''news'', PageView ''News & Updates'']"
    by (simp add: order_defs table_defs load_defs example_defs)
  have "emitted ?s (snd (loadRoute failing ?s ''news'')) =
      ShowLoading # phaseSequence failing ?s ?r @ [HideLoading]"
    using phases_in_order [OF r n, of failing] q by blast
  then show ?thesis
    using r n q by (simp add: ps)
qed

subsection \<open>Prefetching a fragment that cannot be fetched\<close>

lemma loadRoute_miss_requests:
  assumes "resolve p = Some r" and "currentRoute s \<noteq> Some (path r)"
    and "cache s (component r) = None"
  shows "requests (trace (snd (loadRoute e s p))) = requests (trace s) @ [partialUrl (component r)]"
proof -
  let ?m = "fst (loadComponent e s (component r))"
  obtain errs where fin:
    "trace (snd (loadRoute e s p)) = trace (snd (tryBlock e (showLoading s) r)) @ errs @ [HideLoading]"
    "filter isPhase errs = []"
    using loadRoute_finish [OF assms(1,2)] by blast
  obtain ran where tb:
    "trace (snd (tryBlock e (showLoading s) r)) =
       trace s @ ShowLoading # loadEvents e s (component r) @ ran"
    "prefix ran (afterLoad s r ?m)"
    using tryBlock_emitted by blast
  have no_phase: "requests xs = []" if "filter isPhase xs = []" for xs
    using that by (induction xs rule: requests.induct) (simp_all split: if_splits)
  have "requests (afterLoad s r ?m) = []"
    by (simp add: afterLoad_def renderEvents_def split: option.splits)
  moreover from tb(2) obtain zs where "afterLoad s r ?m = ran @ zs"
    by (auto simp add: prefix_def)
  ultimately have ran: "requests ran = []"
    by simp
  have "requests (loadEvents e s (component r)) = [partialUrl (component r)]"
    using assms(3) by (simp add: loadEvents_def)
  then show ?thesis
    by (simp add: fin(1) tb(1) ran no_phase [OF fin(2)])
qed

text \<open>
  C9. When the request of a prefetch fails, \<open>prefetchRoute\<close> still adds the path to
  \<open>prefetchedRoutes\<close> although the cache has no entry for the component. Every later
  prefetch of that path is skipped, whatever the network would answer; a later
  navigation to the path requests the fragment again.
\<close>

theorem failed_prefetch_marks_path:
  assumes "defineRoutes p = Some r" and "p \<notin> prefetchedRoutes s"
    and "cache s (component r) = None" and "failed (fetch e (partialUrl (component r)))"
  shows "p \<in> prefetchedRoutes (prefetchRoute e s p)
       \<and> cache (prefetchRoute e s p) (component r) = None
       \<and> requests (trace (prefetchRoute e s p)) = requests (trace s) @ [partialUrl (component r)]
       \<and> (\<forall>e'. prefetchRoute e' (prefetchRoute e s p) p = prefetchRoute e s p)
       \<and> (\<forall>e'. currentRoute s \<noteq> Some p \<longrightarrow>
            requests (trace (snd (loadRoute e' (prefetchRoute e s p) p))) =
              requests (trace (prefetchRoute e s p)) @ [partialUrl (component r)])"
proof -
  let ?s' = "prefetchRoute e s p"
  have lc: "loadComponent e s (component r) =
      (getErrorContent (component r),
       emit ConsoleError (emit (Fetch (partialUrl (component r))) s))"
    using assms(3,4) by (rule loadComponent_failed)
  have s': "?s' = (emit ConsoleError (emit (Fetch (partialUrl (component r))) s))
      \<lparr>prefetchedRoutes := insert p (prefetchedRoutes s)\<rparr>"
    using assms(1,2) by (simp add: prefetchRoute_def lc Let_def emit_def)
  have added: "p \<in> prefetchedRoutes ?s'"
    by (simp add: s')
  have nocache: "cache ?s' (component r) = None"
    using assms(3) by (simp add: s' emit_def)
  have req: "requests (trace ?s') = requests (trace s) @ [partialUrl (component r)]"
    by (simp add: s' emit_def)
  have skip: "prefetchRoute e' ?s' p = ?s'" for e'
    using added by (rule prefetchRoute_skip)
  have retry: "requests (trace (snd (loadRoute e' ?s' p))) =
      requests (trace ?s') @ [partialUrl (component r)]" if "currentRoute s \<noteq> Some p" for e'
  proof -
    have res: "resolve p = Some r"
      using assms(1) by (rule resolve_known)
    have "path r = p"
      using assms(1) by (rule defineRoutes_path)
    then have cur: "currentRoute ?s' \<noteq> Some (path r)"
      using that by (simp add: s' emit_def)
    show ?thesis
      using res cur nocache by (rule loadRoute_miss_requests)
  qed
  show ?thesis
    using added nocache req skip retry by blast
qed

theorem failed_prefetch_marks_path_witness:
  "defineRoutes ''rfq'' = Some (mkRoute ''rfq'' ''rfq'' ''Request for Quote'')
   \<and> ''rfq'' \<notin> prefetchedRoutes initial
   \<and> cache initial ''rfq'' = None
   \<and> failed (fetch offline (partialUrl ''rfq''))
   \<and> currentRoute initial \<noteq> Some ''rfq''
   \<and> ''rfq'' \<in> prefetchedRoutes (prefetchRoute offline initial ''rfq'')
   \<and> cache (prefetchRoute offline initial ''rfq'') ''rfq'' = None
   \<and> prefetchRoute online (prefetchRoute offline initial ''rfq'') ''rfq'' =
       prefetchRoute offline initial ''rfq''
   \<and> requests (trace (snd (loadRoute online (prefetchRoute offline initial ''rfq'') ''rfq''))) =
       [''partials/rfq.html'', ''partials/rfq.html'']"
proof -
  let ?r = "mkRoute ''rfq'' ''rfq'' ''Request for Quote''"
  have d: "defineRoutes ''rfq'' = Some ?r"
    by (simp add: defineRoutes_def routeList_def)
  have n: "''rfq'' \<notin> prefetchedRoutes initial"
    by (simp add: initial_def)
  have c: "cache initial (component ?r) = None"
    by (simp add: initial_def)
  have f: "failed (fetch offline (partialUrl (component ?r)))"
    by (simp add: failed_def offline_def)
  have cur: "currentRoute initial \<noteq> Some ''rfq''" and tr: "requests (trace initial) = []"
    by (simp_all add: initial_def)
  from failed_prefetch_marks_path [OF d n c f] cur
  have "''rfq'' \<in> prefetchedRoutes (prefetchRoute offline initial ''rfq'')
      \<and> cache (prefetchRoute offline initial ''rfq'') (component ?r) = None
      \<and> requests (trace (prefetchRoute offline initial ''rfq'')) =
          requests (trace initial) @ [partialUrl (component ?r)]
      \<and> prefetchRoute online (prefetchRoute offline initial ''rfq'') ''rfq'' =
          prefetchRoute offline initial ''rfq''
      \<and> requests (trace (snd (loadRoute online (prefetchRoute offline initial ''rfq'') ''rfq''))) =
          requests (trace (prefetchRoute offline initial ''rfq'')) @ [partialUrl (component ?r)]"
    by blast
  then show ?thesis
    using d n c f cur tr by (simp add: partialUrl_def)
qed

subsection \<open>The navigation state after a caught exception\<close>

lemma loadRoute_caught:
  assumes "resolve p = Some r" and "currentRoute s \<noteq> Some (path r)"
    and "appContainer s = Some a" and "throws e ph"
  shows "fst (loadRoute e s p) = None"
    and "map_option innerHTML (appContainer (snd (loadRoute e s p))) = Some errorContent"
    and "raisesBeforeStateUpdate e \<Longrightarrow> currentRoute (snd (loadRoute e s p)) = currentRoute s"
    and "\<not> raisesBeforeStateUpdate e \<Longrightarrow> currentRoute (snd (loadRoute e s p)) = Some (path r)"
proof -
  have ph: "throws e UpdatePageTitle \<or> throws e UpdateActiveNavigation
      \<or> throws e TriggerContentAnimations \<or> throws e ManageFocus
      \<or> throws e InitializePageComponents \<or> throws e TrackPageView"
    using assms(4) by (cases ph) simp_all
  show "fst (loadRoute e s p) = None"
    using assms(1-3)
    by (auto simp add: load_defs
        split: option.splits fetch_outcome.splits prod.splits if_splits)
  show "map_option innerHTML (appContainer (snd (loadRoute e s p))) = Some errorContent"
    using assms(1-3) ph
    by (auto simp add: load_defs
        split: option.splits fetch_outcome.splits prod.splits if_splits)
  show "currentRoute (snd (loadRoute e s p)) = currentRoute s" if "raisesBeforeStateUpdate e"
    using assms(1-3) that
    by (auto simp add: load_defs raisesBeforeStateUpdate_def
        split: option.splits fetch_outcome.splits prod.splits if_splits)
  show "currentRoute (snd (loadRoute e s p)) = Some (path r)" if "\<not> raisesBeforeStateUpdate e"
    using assms(1-3) that
    by (auto simp add: load_defs raisesBeforeStateUpdate_def
        split: option.splits fetch_outcome.splits prod.splits if_splits)
qed

text \<open>
  C10, split at the state update. With the container present, an exception raised by a collaborator
  inside the \<open>try\<close> block is caught: \<open>loadRoute\<close> returns normally and the container
  holds the generic error block. If it was raised before the state update (title update,
  navigation update, or inside \<open>renderContent\<close>), \<open>currentRoute\<close> is unchanged, and a
  navigation back to the route it names is a no-op that leaves the error block in place.
  If it was raised after the state update (hooks, page view), \<open>currentRoute\<close> is the
  path of the new route.
\<close>

theorem navigation_state_after_caught_error:
  assumes "resolve p = Some r" and "currentRoute s \<noteq> Some (path r)"
    and "appContainer s = Some a" and "throws e ph"
  shows "fst (loadRoute e s p) = None
       \<and> map_option innerHTML (appContainer (snd (loadRoute e s p))) = Some errorContent
       \<and> (if raisesBeforeStateUpdate e
          then currentRoute (snd (loadRoute e s p)) = currentRoute s
               \<and> (\<forall>e' q r'. resolve q = Some r' \<and> currentRoute s = Some (path r') \<longrightarrow>
                     loadRoute e' (snd (loadRoute e s p)) q = (None, snd (loadRoute e s p)))
          else currentRoute (snd (loadRoute e s p)) = Some (path r))"
proof -
  note c = loadRoute_caught [OF assms]
  have again: "loadRoute e' (snd (loadRoute e s p)) q = (None, snd (loadRoute e s p))"
    if "raisesBeforeStateUpdate e" "resolve q = Some r'" "currentRoute s = Some (path r')"
    for e' q r'
    using that c(3) by (simp add: loadRoute_def)
  show ?thesis
    using c again by simp
qed

theorem navigation_state_after_caught_error_witness:
  "resolve ''news'' = Some (mkRoute ''news'' ''news'' ''News & Updates'')
   \<and> currentRoute (visited ''about'') = Some ''about''
   \<and> appContainer (visited ''about'') \<noteq> None
   \<and> throws brokenTitle UpdatePageTitle \<and> raisesBeforeStateUpdate brokenTitle
   \<and> fst (loadRoute brokenTitle (visited ''about'') ''news'') = None
   \<and> map_option innerHTML (appContainer (snd (loadRoute brokenTitle (visited ''about'') ''news'')))
        = Some errorContent
   \<and> currentRoute (snd (loadRoute brokenTitle (visited ''about'') ''news'')) = Some ''about''
   \<and> resolve ''about'' = Some (mkRoute ''about'' ''about'' ''About Us'')
   \<and> loadRoute online (snd (loadRoute brokenTitle (visited ''about'') ''news'')) ''about'' =
       (None, snd (loadRoute brokenTitle (visited ''about'') ''news''))"
proof -
  let ?s = "visited ''about''"
  let ?a = "\<lparr>innerHTML = ''<h1 tabindex='' @ dq @ ''-1'' @ dq @ ''>partials/about.html</h1>'',
             opacity = ''1'',
             transform = ''translateY(0)''\<rparr>"
  have r: "resolve ''news'' = Some (mkRoute ''news'' ''news'' ''News & Updates'')"
    by (simp add: table_defs)
  have n: "currentRoute ?s \<noteq> Some (path (mkRoute ''news'' ''news'' ''News & Updates''))"
    by (simp add: visited_about_current)
  have a: "appContainer ?s = Some ?a"
    by (simp add: table_defs load_defs example_defs)
  have t: "throws brokenTitle UpdatePageTitle"
    by (simp add: brokenTitle_def)
  have b: "raisesBeforeStateUpdate brokenTitle"
    by (simp add: raisesBeforeStateUpdate_def brokenTitle_def)
  have r': "resolve ''about'' = Some (mkRoute ''about'' ''about'' ''About Us'')"
    by (simp add: table_defs)
  have cur: "currentRoute ?s = Some (path (mkRoute ''about'' ''about'' ''About Us''))"
    by (simp add: visited_about_current)
  let ?s' = "snd (loadRoute brokenTitle ?s ''news'')"
  from navigation_state_after_caught_error [OF r n a t] b
  have all: "fst (loadRoute brokenTitle ?s ''news'') = None
      \<and> map_option innerHTML (appContainer ?s') = Some errorContent
      \<and> currentRoute ?s' = currentRoute ?s
      \<and> (\<forall>e' q r'. resolve q = Some r' \<and> currentRoute ?s = Some (path r') \<longrightarrow>
            loadRoute e' ?s' q = (None, ?s'))"
    by simp
  then have noop: "loadRoute online ?s' ''about'' = (None, ?s')"
    using r' cur by blast
  have kept: "currentRoute ?s' = Some ''about''"
    using all by (simp add: visited_about_current)
  show ?thesis
    using all noop kept r a t b r' by (simp add: visited_about_current)
qed

text \<open>
  The state is not always unchanged. When the hooks raise, the exception reaches the \<open>catch\<close>
  block, the container holds the error block, and \<open>currentRoute\<close> already names the new
  route, so that going back to the previous page renders it again. In a document
  without the container no error block can be shown.
\<close>

theorem hook_error_after_state_update_counterexample:
  "throws brokenHooks InitializePageComponents
   \<and> currentRoute (visited ''about'') = Some ''about''
   \<and> fst (loadRoute brokenHooks (visited ''about'') ''news'') = None
   \<and> map_option innerHTML (appContainer (snd (loadRoute brokenHooks (visited ''about'') ''news'')))
        = Some errorContent
   \<and> currentRoute (snd (loadRoute brokenHooks (visited ''about'') ''news'')) = Some ''news''
   \<and> currentRoute (snd (loadRoute brokenHooks (visited ''about'') ''news''))
        \<noteq> currentRoute (visited ''about'')
   \<and> map_option innerHTML (appContainer
        (snd (loadRoute online (snd (loadRoute brokenHooks (visited ''about'') ''news'')) ''about'')))
        = Some (''<h1 tabindex='' @ dq @ ''-1'' @ dq @ ''>partials/about.html</h1>'')
   \<and> fst (loadRoute brokenTitle noContainer ''news'') = Some TypeError
   \<and> appContainer (snd (loadRoute brokenTitle noContainer ''news'')) = None"
  by (simp add: noContainer_def table_defs load_defs example_defs)

subsection \<open>Sessions: what every step keeps\<close>

lemmas session_defs = run_def idle_def startCall_def deliver_def startNavigateTo_def
  assignHash_def startHandleRoute_def startPrefetchRoute_def startLoadRoute_def
  startLoadComponent_def resume_def routeLoaded_def timerFired_def afterRender_def
  swapContent_def fetched_def catchFinally_def normalizePath_def

lemma untouched_refl [simp]: "untouched s s"
  by (simp add: untouched_def)

lemma untouched_trans: "untouched s s1 \<Longrightarrow> untouched s1 s2 \<Longrightarrow> untouched s s2"
  by (simp add: untouched_def)

lemma untouched_phases:
  "untouched s (showLoading s)"
  "untouched s (hideLoading s)"
  "untouched s (emit ConsoleError s)"
  "untouched s (snd (updatePageTitle e s t))"
  "untouched s (snd (updateActiveNavigation e s p))"
  "untouched s (snd (swapContent e s m))"
  "untouched s (snd (setCurrentRoute s p))"
  "untouched s (snd (initializePageComponents e s c))"
  "untouched s (snd (trackPageView e s r))"
  "untouched s (snd (handleRouteError s))"
  by (simp_all add: untouched_def phase_defs swapContent_def Let_def split: option.splits)

lemma untouched_andThen:
  assumes "untouched s (snd x)" and "\<And>s1. untouched s1 (snd (f s1))"
  shows "untouched s (snd (andThen x f))"
proof (cases x)
  case (Pair err s1)
  show ?thesis
  proof (cases err)
    case None
    have "untouched s1 (snd (f s1))" by (rule assms(2))
    with assms(1) Pair None show ?thesis
      by (auto simp add: andThen_def intro: untouched_trans)
  next
    case (Some a)
    with assms(1) Pair show ?thesis by (simp add: andThen_def)
  qed
qed

lemma untouched_catchFinally:
  assumes "untouched s (snd x)"
  shows "untouched s (catchFinally x)"
proof (cases x)
  case (Pair err s1)
  show ?thesis
  proof (cases err)
    case None
    have "untouched s1 (hideLoading s1)" by (rule untouched_phases)
    with assms Pair None show ?thesis
      by (auto simp add: catchFinally_def intro: untouched_trans)
  next
    case (Some a)
    have "untouched s1 (emit ConsoleError s1)" by (rule untouched_phases)
    moreover have "untouched (emit ConsoleError s1) (snd (handleRouteError (emit ConsoleError s1)))"
      by (rule untouched_phases)
    moreover have "untouched (snd (handleRouteError (emit ConsoleError s1)))
        (hideLoading (snd (handleRouteError (emit ConsoleError s1))))"
      by (rule untouched_phases)
    ultimately have "untouched s1 (hideLoading (snd (handleRouteError (emit ConsoleError s1))))"
      by (blast intro: untouched_trans)
    with assms Pair Some show ?thesis
      by (auto simp add: catchFinally_def intro: untouched_trans)
  qed
qed

lemma untouched_afterRender:
  assumes "untouched s (snd x)"
  shows "untouched s (afterRender e x r)"
  unfolding afterRender_def
  by (intro untouched_catchFinally untouched_andThen assms untouched_phases)

lemma untouched_timerFired: "untouched s (fst (timerFired e s r m))"
  by (simp add: timerFired_def untouched_afterRender untouched_phases)

lemma timerFired_tasks [simp]: "snd (timerFired e s r m) = []"
  by (simp add: timerFired_def)

lemma untouched_routeLoaded: "untouched s (fst (routeLoaded e s r m))"
proof -
  let ?x = "andThen (updatePageTitle e s (title r)) (\<lambda>s. updateActiveNavigation e s (path r))"
  have x: "untouched s (snd ?x)"
    by (intro untouched_andThen untouched_phases)
  show ?thesis
  proof (cases ?x)
    case (Pair err s1)
    with x have s1: "untouched s s1" by simp
    show ?thesis
    proof (cases err)
      case None
      show ?thesis
      proof (cases "appContainer s1")
        case None
        have "untouched s (afterRender e (None, s1) r)"
          by (rule untouched_afterRender) (simp add: s1)
        with Pair \<open>err = None\<close> None show ?thesis
          by (simp add: routeLoaded_def)
      next
        case (Some a)
        with Pair \<open>err = None\<close> s1 show ?thesis
          by (simp add: routeLoaded_def untouched_def)
      qed
    next
      case (Some a)
      have "untouched s (catchFinally (Some a, s1))"
        by (rule untouched_catchFinally) (simp add: s1)
      with Pair Some show ?thesis
        by (simp add: routeLoaded_def)
    qed
  qed
qed

lemma routeLoaded_tasks: "map fetchOf (snd (routeLoaded e s r m)) = [] \<or> map fetchOf (snd (routeLoaded e s r m)) = [None]"
  by (simp add: routeLoaded_def split: prod.splits option.splits)

lemma partialUrl_inj [simp]: "partialUrl a = partialUrl b \<longleftrightarrow> a = b"
  by (simp add: partialUrl_def)

lemma inFlight_simps [simp]:
  "inFlight [] c = False"
  "inFlight (t # ts) c = (fetchOf t = Some c \<or> inFlight ts c)"
  "inFlight (xs @ ys) c = (inFlight xs c \<or> inFlight ys c)"
  by (auto simp add: inFlight_def)

lemma inFlight_take: "inFlight (take k ts) c \<Longrightarrow> inFlight ts c"
  by (auto simp add: inFlight_def dest: in_set_takeD)

lemma inFlight_drop: "inFlight (drop k ts) c \<Longrightarrow> inFlight ts c"
  by (auto simp add: inFlight_def dest: in_set_dropD)

lemma inFlight_nth: "k < length ts \<Longrightarrow> fetchOf (ts ! k) = Some c \<Longrightarrow> inFlight ts c"
  unfolding inFlight_def by (metis image_eqI nth_mem set_map)

lemma untouched_asked: "untouched s s' \<Longrightarrow> asked s' c = asked s c"
  by (simp add: untouched_def asked_def)

lemma routeLoaded_inFlight [simp]: "\<not> inFlight (snd (routeLoaded e s r m)) c"
  using routeLoaded_tasks [of e s r m] by (auto simp add: inFlight_def)

lemma resume_effect:
  "cache (fst (resume e s who m)) = cache s"
  "prefetchedRoutes s \<subseteq> prefetchedRoutes (fst (resume e s who m))"
  "requests (trace (fst (resume e s who m))) = requests (trace s)"
  "\<not> inFlight (snd (resume e s who m)) c"
proof -
  have "untouched s (fst (routeLoaded e s r m))" for r
    by (rule untouched_routeLoaded)
  then have u: "cache (fst (routeLoaded e s r m)) = cache s"
    "prefetchedRoutes (fst (routeLoaded e s r m)) = prefetchedRoutes s"
    "requests (trace (fst (routeLoaded e s r m))) = requests (trace s)" for r
    by (simp_all add: untouched_def)
  show "cache (fst (resume e s who m)) = cache s"
    by (cases who) (simp_all add: resume_def u)
  show "prefetchedRoutes s \<subseteq> prefetchedRoutes (fst (resume e s who m))"
    by (cases who) (auto simp add: resume_def u)
  show "requests (trace (fst (resume e s who m))) = requests (trace s)"
    by (cases who) (simp_all add: resume_def u)
  show "\<not> inFlight (snd (resume e s who m)) c"
    by (cases who) (simp_all add: resume_def)
qed

lemma fetched_effect:
  "c \<noteq> c' \<Longrightarrow> cache (snd (fetched e s c')) c = cache s c"
  "prefetchedRoutes (snd (fetched e s c')) = prefetchedRoutes s"
  "requests (trace (snd (fetched e s c'))) = requests (trace s)"
  by (simp_all add: fetched_def emit_def split: fetch_outcome.splits option.splits)

lemma startLoadComponent_prefetched:
  "prefetchedRoutes s \<subseteq> prefetchedRoutes (fst (startLoadComponent e s who c'))"
  by (simp add: startLoadComponent_def emit_def resume_effect split: option.splits)

lemma startLoadComponent_calm:
  assumes "cache s c = Some m"
  shows "calm c m s (startLoadComponent e s who c')"
proof (cases "cache s c'")
  case None
  with assms have "c' \<noteq> c" by auto
  with assms None show ?thesis
    by (simp add: calm_def startLoadComponent_def emit_def asked_def)
next
  case (Some m')
  with assms show ?thesis
    by (simp add: calm_def startLoadComponent_def asked_def resume_effect)
qed

lemma startLoadRoute_prefetched:
  "prefetchedRoutes s \<subseteq> prefetchedRoutes (fst (startLoadRoute e s p))"
proof -
  have "prefetchedRoutes (showLoading s) = prefetchedRoutes s"
    by (simp add: showLoading_def emit_def)
  then have "prefetchedRoutes s \<subseteq> prefetchedRoutes (fst (startLoadComponent e (showLoading s) who c'))"
    for who c'
    using startLoadComponent_prefetched [of "showLoading s" e who c'] by simp
  then show ?thesis
    by (simp add: startLoadRoute_def split: option.splits)
qed

lemma calm_refl: "cache s c = Some m \<Longrightarrow> calm c m s (s, [])"
  by (simp add: calm_def)

lemma startLoadRoute_calm:
  assumes "cache s c = Some m"
  shows "calm c m s (startLoadRoute e s p)"
proof -
  have sl: "cache (showLoading s) c = Some m" "asked (showLoading s) c = asked s c"
    using assms by (simp_all add: showLoading_def emit_def asked_def)
  have "calm c m (showLoading s) (startLoadComponent e (showLoading s) who c')" for who c'
    using sl(1) by (rule startLoadComponent_calm)
  then have "calm c m s (startLoadComponent e (showLoading s) who c')" for who c'
    by (simp add: calm_def sl(2))
  then show ?thesis
    using assms by (simp add: startLoadRoute_def calm_refl split: option.splits)
qed

lemma startPrefetchRoute_prefetched:
  "prefetchedRoutes s \<subseteq> prefetchedRoutes (fst (startPrefetchRoute e s p))"
  by (simp add: startPrefetchRoute_def startLoadComponent_prefetched split: option.splits)

lemma startPrefetchRoute_calm:
  "cache s c = Some m \<Longrightarrow> calm c m s (startPrefetchRoute e s p)"
  by (simp add: startPrefetchRoute_def startLoadComponent_calm calm_refl split: option.splits)

lemma startHandleRoute_prefetched:
  "prefetchedRoutes s \<subseteq> prefetchedRoutes (fst (startHandleRoute e s))"
  by (simp add: startHandleRoute_def Let_def startLoadRoute_prefetched)

lemma startHandleRoute_calm:
  "cache s c = Some m \<Longrightarrow> calm c m s (startHandleRoute e s)"
  by (simp add: startHandleRoute_def Let_def startLoadRoute_calm)

lemma assignHash_effect:
  "cache (fst (assignHash h s)) = cache s"
  "prefetchedRoutes (fst (assignHash h s)) = prefetchedRoutes s"
  "trace (fst (assignHash h s)) = trace s"
  "\<not> inFlight (snd (assignHash h s)) c"
  by (simp_all add: assignHash_def)

lemma startNavigateTo_prefetched:
  "prefetchedRoutes s \<subseteq> prefetchedRoutes (fst (startNavigateTo e s p b))"
proof -
  have "prefetchedRoutes s1 \<subseteq> prefetchedRoutes (fst (startLoadRoute e s1 n))" for s1 n
    by (rule startLoadRoute_prefetched)
  from this [of "fst (assignHash h s)" for h] this [of s]
  show ?thesis
    by (simp add: startNavigateTo_def Let_def split_beta assignHash_effect)
qed

lemma startNavigateTo_calm:
  assumes "cache s c = Some m"
  shows "calm c m s (startNavigateTo e s p b)"
proof -
  have a: "cache (fst (assignHash h s)) c = Some m" "asked (fst (assignHash h s)) c = asked s c" for h
    using assms by (simp_all add: assignHash_effect asked_def)
  have "calm c m (fst (assignHash h s)) (startLoadRoute e (fst (assignHash h s)) n)" for h n
    using a(1) by (rule startLoadRoute_calm)
  then have 1: "calm c m s (startLoadRoute e (fst (assignHash h s)) n)" for h n
    by (simp add: calm_def a(2))
  have 2: "calm c m s (startLoadRoute e s n)" for n
    using assms by (rule startLoadRoute_calm)
  show ?thesis
    using 1 2 by (simp add: startNavigateTo_def Let_def split_beta calm_def assignHash_effect)
qed

lemma startCall_prefetched:
  "prefetchedRoutes s \<subseteq> prefetchedRoutes (fst (startCall e s x))"
  by (cases x)
     (simp_all add: startCall_def startNavigateTo_prefetched assignHash_effect
        startHandleRoute_prefetched startPrefetchRoute_prefetched startLoadRoute_prefetched
        startLoadComponent_prefetched)

lemma startCall_calm:
  assumes "cache s c = Some m"
  shows "calm c m s (startCall e s x)"
proof (cases x)
  case (AddressChange h)
  with assms show ?thesis
    by (simp add: startCall_def calm_def assignHash_effect asked_def)
qed (simp_all add: startCall_def assms startNavigateTo_calm startHandleRoute_calm
      startPrefetchRoute_calm startLoadRoute_calm startLoadComponent_calm)

lemma deliver_prefetched:
  "prefetchedRoutes s \<subseteq> prefetchedRoutes (fst (deliver e s t))"
proof (cases t)
  case Listener
  then show ?thesis by (simp add: deliver_def startHandleRoute_prefetched)
next
  case (Fetching who c')
  have "prefetchedRoutes (snd (fetched e s c')) \<subseteq>
      prefetchedRoutes (fst (resume e (snd (fetched e s c')) who (fst (fetched e s c'))))"
    by (rule resume_effect)
  with Fetching show ?thesis
    by (simp add: deliver_def split_beta fetched_effect)
next
  case (Fading r m)
  have "untouched s (fst (timerFired e s r m))" by (rule untouched_timerFired)
  with Fading show ?thesis by (simp add: deliver_def untouched_def)
qed

lemma deliver_calm:
  assumes "cache s c = Some m" and "fetchOf t \<noteq> Some c"
  shows "calm c m s (deliver e s t)"
proof (cases t)
  case Listener
  with assms show ?thesis by (simp add: deliver_def startHandleRoute_calm)
next
  case (Fetching who c')
  with assms(2) have ne: "c \<noteq> c'" by auto
  let ?f = "fetched e s c'"
  have "cache (snd ?f) c = Some m" "asked (snd ?f) c = asked s c"
    using assms(1) ne by (simp_all add: fetched_effect asked_def)
  then show ?thesis
    using Fetching by (simp add: deliver_def split_beta calm_def resume_effect asked_def)
next
  case (Fading r m')
  have "untouched s (fst (timerFired e s r m'))" by (rule untouched_timerFired)
  with Fading assms(1) show ?thesis
    by (simp add: deliver_def calm_def untouched_asked) (simp add: untouched_def)
qed

lemma step_prefetched: "prefetchedRoutes (state ss) \<subseteq> prefetchedRoutes (state (step ss x))"
proof (cases x)
  case (Pair e i)
  show ?thesis
  proof (cases i)
    case (Call c)
    with Pair show ?thesis
      using startCall_prefetched [of "state ss" e c] by (simp add: split_beta)
  next
    case (Deliver k)
    with Pair show ?thesis
      using deliver_prefetched [of "state ss" e "pending ss ! k"] by (simp add: split_beta)
  qed
qed

lemma step_settled:
  assumes "settled c m ss"
  shows "settled c m (step ss x) \<and> asked (state (step ss x)) c = asked (state ss) c"
proof (cases x)
  case (Pair e i)
  from assms have c: "cache (state ss) c = Some m" and f: "\<not> inFlight (pending ss) c"
    by (simp_all add: settled_def)
  show ?thesis
  proof (cases i)
    case (Call x')
    have "calm c m (state ss) (startCall e (state ss) x')"
      using c by (rule startCall_calm)
    with Pair Call f show ?thesis
      by (simp add: split_beta settled_def calm_def)
  next
    case (Deliver k)
    show ?thesis
    proof (cases "k < length (pending ss)")
      case True
      with f have "fetchOf (pending ss ! k) \<noteq> Some c"
        by (auto dest: inFlight_nth)
      with c have "calm c m (state ss) (deliver e (state ss) (pending ss ! k))"
        by (rule deliver_calm)
      with Pair Deliver True f show ?thesis
        by (auto simp add: split_beta settled_def calm_def dest: inFlight_take inFlight_drop)
    next
      case False
      with Pair Deliver assms show ?thesis by simp
    qed
  qed
qed

lemma run_prefetched: "prefetchedRoutes (state ss) \<subseteq> prefetchedRoutes (state (run ss steps))"
  unfolding run_def
proof (induction steps arbitrary: ss)
  case Nil
  show ?case by simp
next
  case (Cons x xs)
  have "prefetchedRoutes (state ss) \<subseteq> prefetchedRoutes (state (step ss x))"
    by (rule step_prefetched)
  also have "\<dots> \<subseteq> prefetchedRoutes (state (foldl step (step ss x) xs))"
    by (rule Cons.IH)
  finally show ?case by simp
qed

lemma run_settled:
  "settled c m ss \<Longrightarrow>
   settled c m (run ss steps) \<and> asked (state (run ss steps)) c = asked (state ss) c"
  unfolding run_def
proof (induction steps arbitrary: ss)
  case Nil
  then show ?case by simp
next
  case (Cons x xs)
  from step_settled [OF Cons.prems, of x]
  have 1: "settled c m (step ss x)" and 2: "asked (state (step ss x)) c = asked (state ss) c"
    by simp_all
  from Cons.IH [OF 1] 2 show ?case by simp
qed

subsection \<open>Calls made in turn\<close>

text \<open>
  When the events of a call are delivered before anything else starts, the session
  reaches the state that the function of the method gives, with nothing pending. (A
  delivery with nothing pending changes nothing, so the schedules below also cover the
  calls that end early.)
\<close>

lemma loadComponent_fetched:
  "loadComponent e s c =
    (case cache s c of
       Some content \<Rightarrow> (content, s)
     | None \<Rightarrow> fetched e (emit (Fetch (partialUrl c)) s) c)"
  by (simp add: loadComponent_def fetched_def emit_def Let_def
      split: option.splits fetch_outcome.splits)

lemma renderContent_swapContent:
  "renderContent e s m =
    (case appContainer s of
       None \<Rightarrow> (None, s)
     | Some a \<Rightarrow>
        swapContent e
          (s\<lparr>appContainer := Some (a\<lparr>opacity := ''0'', transform := ''translateY(20px)''\<rparr>)\<rparr>) m)"
  by (simp add: renderContent_def swapContent_def emit_def Let_def split: option.splits)

lemma andThen_simps [simp]:
  "andThen (None, s) f = f s"
  "andThen (Some err, s) f = (Some err, s)"
  by (simp_all add: andThen_def)

lemma loadRoute_catchFinally:
  assumes "resolve p = Some r" and "currentRoute s \<noteq> Some (path r)"
  shows "snd (loadRoute e s p) = catchFinally (tryBlock e (showLoading s) r)"
  using assms by (simp add: loadRoute_def catchFinally_def Let_def)

lemma step_simps:
  "step (idle s) (e, Call x) = \<lparr>state = fst (startCall e s x), pending = snd (startCall e s x)\<rparr>"
  "step \<lparr>state = s, pending = []\<rparr> (e, Deliver 0) = \<lparr>state = s, pending = []\<rparr>"
  "step \<lparr>state = s, pending = [t]\<rparr> (e, Deliver 0) =
     \<lparr>state = fst (deliver e s t), pending = snd (deliver e s t)\<rparr>"
  by (simp_all add: idle_def split_beta)

lemma routeLoaded_in_turn:
  "foldl step \<lparr>state = fst (routeLoaded e s r m), pending = snd (routeLoaded e s r m)\<rparr>
     [(e, Deliver 0)] =
   idle (catchFinally (andThen (andThen (andThen (andThen (andThen
       (updatePageTitle e s (title r))
       (\<lambda>s. updateActiveNavigation e s (path r)))
       (\<lambda>s. renderContent e s m))
       (\<lambda>s. setCurrentRoute s (path r)))
       (\<lambda>s. initializePageComponents e s (component r)))
       (\<lambda>s. trackPageView e s r)))"
proof (cases "andThen (updatePageTitle e s (title r)) (\<lambda>s. updateActiveNavigation e s (path r))")
  case (Pair err s1)
  show ?thesis
  proof (cases err)
    case (Some x)
    with Pair show ?thesis
      by (simp add: routeLoaded_def step_simps idle_def)
  next
    case None
    show ?thesis
    proof (cases "appContainer s1")
      case None
      with Pair \<open>err = None\<close> show ?thesis
        by (simp add: routeLoaded_def step_simps idle_def afterRender_def
            renderContent_swapContent)
    next
      case (Some a)
      with Pair \<open>err = None\<close> show ?thesis
        by (simp add: routeLoaded_def step_simps idle_def afterRender_def
            renderContent_swapContent deliver_def timerFired_def)
    qed
  qed
qed

lemma routeLoaded_in_turn2:
  "foldl step \<lparr>state = fst (routeLoaded e s r m), pending = snd (routeLoaded e s r m)\<rparr>
     [(e, Deliver 0), (e, Deliver 0)] =
   foldl step \<lparr>state = fst (routeLoaded e s r m), pending = snd (routeLoaded e s r m)\<rparr>
     [(e, Deliver 0)]"
proof -
  have "foldl step \<lparr>state = fst (routeLoaded e s r m), pending = snd (routeLoaded e s r m)\<rparr>
     [(e, Deliver 0), (e, Deliver 0)] =
     step (foldl step \<lparr>state = fst (routeLoaded e s r m), pending = snd (routeLoaded e s r m)\<rparr>
     [(e, Deliver 0)]) (e, Deliver 0)"
    by simp
  then show ?thesis
    unfolding routeLoaded_in_turn by (simp add: idle_def)
qed

lemma loadRoute_in_turn:
  "run (idle s) [(e, Call (LoadRoute p)), (e, Deliver 0), (e, Deliver 0)] =
   idle (snd (loadRoute e s p))"
proof (cases "resolve p")
  case None
  then have "startCall e s (LoadRoute p) = (s, [])" "snd (loadRoute e s p) = s"
    by (simp_all add: startCall_def startLoadRoute_def loadRoute_def)
  then show ?thesis
    by (simp add: run_def step_simps del: step.simps) (simp add: idle_def)
next
  case (Some r)
  show ?thesis
  proof (cases "currentRoute s = Some (path r)")
    case True
    with Some have "startCall e s (LoadRoute p) = (s, [])" "snd (loadRoute e s p) = s"
      by (simp_all add: startCall_def startLoadRoute_def loadRoute_def)
    then show ?thesis
      by (simp add: run_def step_simps del: step.simps) (simp add: idle_def)
  next
    case False
    let ?s0 = "showLoading s"
    let ?c = "component r"
    note big = loadRoute_catchFinally [OF Some False, of e]
    show ?thesis
    proof (cases "cache ?s0 ?c")
      case None
      let ?s1 = "emit (Fetch (partialUrl ?c)) ?s0"
      let ?lc = "fetched e ?s1 ?c"
      have lc: "loadComponent e ?s0 ?c = ?lc"
        by (simp add: loadComponent_fetched None)
      have st: "startCall e s (LoadRoute p) = (?s1, [Fetching (ByLoadRoute r) ?c])"
        using Some False None
        by (simp add: startCall_def startLoadRoute_def startLoadComponent_def)
      have d: "deliver e ?s1 (Fetching (ByLoadRoute r) ?c) = routeLoaded e (snd ?lc) r (fst ?lc)"
        by (simp add: deliver_def resume_def split_beta)
      have "run (idle s) [(e, Call (LoadRoute p)), (e, Deliver 0), (e, Deliver 0)] =
          foldl step \<lparr>state = fst (routeLoaded e (snd ?lc) r (fst ?lc)),
                       pending = snd (routeLoaded e (snd ?lc) r (fst ?lc))\<rparr> [(e, Deliver 0)]"
        by (simp add: run_def step_simps st d del: step.simps)
      then show ?thesis
        unfolding routeLoaded_in_turn big by (simp add: tryBlock_def lc split_beta)
    next
      case (Some m)
      have lc: "loadComponent e ?s0 ?c = (m, ?s0)"
        by (simp add: loadComponent_fetched Some)
      have st: "startCall e s (LoadRoute p) = routeLoaded e ?s0 r m"
        using \<open>resolve p = Some r\<close> False Some
        by (simp add: startCall_def startLoadRoute_def startLoadComponent_def resume_def)
      have "run (idle s) [(e, Call (LoadRoute p)), (e, Deliver 0), (e, Deliver 0)] =
          foldl step \<lparr>state = fst (routeLoaded e ?s0 r m),
                       pending = snd (routeLoaded e ?s0 r m)\<rparr> [(e, Deliver 0), (e, Deliver 0)]"
        by (simp add: run_def step_simps st del: step.simps)
      then show ?thesis
        unfolding routeLoaded_in_turn2 routeLoaded_in_turn big by (simp add: tryBlock_def lc)
    qed
  qed
qed

lemma loadComponent_in_turn:
  "run (idle s) [(e, Call (LoadComponent c)), (e, Deliver 0)] = idle (snd (loadComponent e s c))"
proof (cases "cache s c")
  case None
  let ?s1 = "emit (Fetch (partialUrl c)) s"
  have st: "startCall e s (LoadComponent c) = (?s1, [Fetching Direct c])"
    using None by (simp add: startCall_def startLoadComponent_def)
  have d: "deliver e ?s1 (Fetching Direct c) = (snd (fetched e ?s1 c), [])"
    by (simp add: deliver_def resume_def split_beta)
  show ?thesis
    by (simp add: run_def step_simps st d loadComponent_fetched None del: step.simps)
       (simp add: idle_def)
next
  case (Some m)
  then have st: "startCall e s (LoadComponent c) = (s, [])"
    by (simp add: startCall_def startLoadComponent_def resume_def)
  show ?thesis
    by (simp add: run_def step_simps st loadComponent_fetched Some del: step.simps)
       (simp add: idle_def)
qed

lemma prefetchRoute_in_turn:
  "run (idle s) [(e, Call (PrefetchRoute p)), (e, Deliver 0)] = idle (prefetchRoute e s p)"
proof (cases "p \<in> prefetchedRoutes s \<or> defineRoutes p = None")
  case True
  then have "startCall e s (PrefetchRoute p) = (s, [])" "prefetchRoute e s p = s"
    by (auto simp add: startCall_def startPrefetchRoute_def prefetchRoute_def)
  then show ?thesis
    by (simp add: run_def step_simps del: step.simps) (simp add: idle_def)
next
  case False
  then obtain r where r: "defineRoutes p = Some r" and n: "p \<notin> prefetchedRoutes s"
    by auto
  let ?c = "component r"
  show ?thesis
  proof (cases "cache s ?c")
    case None
    let ?s1 = "emit (Fetch (partialUrl ?c)) s"
    have st: "startCall e s (PrefetchRoute p) = (?s1, [Fetching (ByPrefetchRoute p) ?c])"
      using r n None by (simp add: startCall_def startPrefetchRoute_def startLoadComponent_def)
    have d: "deliver e ?s1 (Fetching (ByPrefetchRoute p) ?c) =
        ((snd (fetched e ?s1 ?c))\<lparr>prefetchedRoutes :=
            insert p (prefetchedRoutes (snd (fetched e ?s1 ?c)))\<rparr>, [])"
      by (simp add: deliver_def resume_def split_beta)
    show ?thesis
      using r n
      by (simp add: run_def step_simps st d prefetchRoute_def loadComponent_fetched None Let_def
          del: step.simps)
         (simp add: idle_def)
  next
    case (Some m)
    have st: "startCall e s (PrefetchRoute p) =
        (s\<lparr>prefetchedRoutes := insert p (prefetchedRoutes s)\<rparr>, [])"
      using r n Some
      by (simp add: startCall_def startPrefetchRoute_def startLoadComponent_def resume_def)
    show ?thesis
      using r n
      by (simp add: run_def step_simps st prefetchRoute_def loadComponent_fetched Some Let_def
          del: step.simps)
         (simp add: idle_def)
  qed
qed

subsection \<open>The fragment cache\<close>

lemma deliver_settles:
  assumes "k < length (pending ss)" and "pending ss ! k = Fetching who c"
    and "fetch e (partialUrl c) = Response status (Some m)" and "ok status"
    and "\<not> inFlight (take k (pending ss) @ drop (Suc k) (pending ss)) c"
  shows "settled c m (step ss (e, Deliver k))"
    and "asked (state (step ss (e, Deliver k))) c = asked (state ss) c"
    and "fst (fetched e (state ss) c) = m"
proof -
  let ?f = "fetched e (state ss) c"
  have f: "fst ?f = m" "cache (snd ?f) c = Some m"
    "requests (trace (snd ?f)) = requests (trace (state ss))"
    using assms(3,4) by (simp_all add: fetched_def)
  have st: "step ss (e, Deliver k) =
      \<lparr>state = fst (resume e (snd ?f) who m),
       pending = take k (pending ss) @ drop (Suc k) (pending ss) @ snd (resume e (snd ?f) who m)\<rparr>"
    using assms(1,2) f(1) by (simp add: deliver_def split_beta)
  show "settled c m (step ss (e, Deliver k))"
    using assms(5) f(2) unfolding st by (simp add: settled_def resume_effect)
  show "asked (state (step ss (e, Deliver k))) c = asked (state ss) c"
    unfolding st by (simp add: asked_def resume_effect f(3))
  show "fst ?f = m" by (rule f(1))
qed

text \<open>
  C4, for a settled entry. When the answer of a request for a component arrives, is ok
  and is stored, and no other request for that component is in flight, then through
  every later step of the session, overlapping calls included, the entry keeps that
  text, no further request for the component is made, and every \<open>loadComponent\<close> of the
  component returns that text and leaves the state, trace included, unchanged, with
  nothing left waiting.
\<close>

theorem cache_correctness:
  assumes "k < length (pending ss)" and "pending ss ! k = Fetching who c"
    and "fetch e (partialUrl c) = Response status (Some m)" and "ok status"
    and "\<not> inFlight (take k (pending ss) @ drop (Suc k) (pending ss)) c"
  shows "fst (fetched e (state ss) c) = m
       \<and> (\<forall>steps. cache (state (run (step ss (e, Deliver k)) steps)) c = Some m)
       \<and> (\<forall>steps. asked (state (run (step ss (e, Deliver k)) steps)) c = asked (state ss) c)
       \<and> (\<forall>steps e'. loadComponent e' (state (run (step ss (e, Deliver k)) steps)) c =
            (m, state (run (step ss (e, Deliver k)) steps)))
       \<and> (\<forall>steps e'. startLoadComponent e' (state (run (step ss (e, Deliver k)) steps)) Direct c =
            (state (run (step ss (e, Deliver k)) steps), []))"
proof -
  note d = deliver_settles [OF assms]
  have later: "cache (state (run (step ss (e, Deliver k)) steps)) c = Some m"
    "asked (state (run (step ss (e, Deliver k)) steps)) c = asked (state ss) c" for steps
    using run_settled [OF d(1), of steps] d(2) by (simp_all add: settled_def)
  show ?thesis
    using d(3) later by (simp add: loadComponent_hit startLoadComponent_def resume_def)
qed

lemma firstLoad_pending:
  "pending firstLoad = [Fetching (ByLoadRoute (mkRoute [] ''home'' ''Home'')) ''home'']"
  by (simp add: firstLoad_def session_defs table_defs phase_defs example_defs split_beta)

theorem cache_correctness_witness:
  "0 < length (pending firstLoad)
   \<and> pending firstLoad ! 0 = Fetching (ByLoadRoute (mkRoute [] ''home'' ''Home'')) ''home''
   \<and> fetch online (partialUrl ''home'') = Response 200 (Some ''<h1>partials/home.html</h1>'')
   \<and> ok 200
   \<and> \<not> inFlight (take 0 (pending firstLoad) @ drop (Suc 0) (pending firstLoad)) ''home''
   \<and> asked (state (run (step firstLoad (online, Deliver 0)) browsing)) ''home'' =
       asked (state firstLoad) ''home''
   \<and> loadComponent offline (state (run (step firstLoad (online, Deliver 0)) browsing)) ''home'' =
       (''<h1>partials/home.html</h1>'', state (run (step firstLoad (online, Deliver 0)) browsing))"
proof -
  have k: "0 < length (pending firstLoad)"
    and t: "pending firstLoad ! 0 = Fetching (ByLoadRoute (mkRoute [] ''home'' ''Home'')) ''home''"
    and n: "\<not> inFlight (take 0 (pending firstLoad) @ drop (Suc 0) (pending firstLoad)) ''home''"
    by (simp_all add: firstLoad_pending)
  have f: "fetch online (partialUrl ''home'') = Response 200 (Some ''<h1>partials/home.html</h1>'')"
    by (simp add: online_def partialUrl_def)
  have o: "ok 200"
    by (simp add: ok_def)
  show ?thesis
    using k t f o n cache_correctness [OF k t f o n] by blast
qed

text \<open>
  Without the condition on the requests in flight the property does not hold. After the
  page has loaded, a click on the link to \<open>about\<close> assigns the hash and starts
  \<open>loadRoute\<close>; the \<open>popstate\<close> and \<open>hashchange\<close> listeners then each call
  \<open>handleRoute\<close> while the first request is still out, pass the guard and the cache
  test, and request the same fragment again. Each answer is stored when it arrives: the
  entry written by the first answer is written again by the second, here with the text
  the network serves by then.
\<close>

theorem overlapping_requests_counterexample:
  "requests (trace (state (idle (visited [])))) = [''partials/home.html'']
   \<and> requests (trace (state (run (idle (visited []))
        [(online, Call (NavigateTo ''about'' True)), (online, Deliver 0), (online, Deliver 0),
         (online, Deliver 0)]))) =
       [''partials/home.html'', ''partials/about.html'', ''partials/about.html'',
        ''partials/about.html'']
   \<and> cache (state (run (idle (visited []))
        [(online, Call (NavigateTo ''about'' True)), (online, Deliver 0), (online, Deliver 0),
         (online, Deliver 0)])) ''about'' = Some ''<h1>partials/about.html</h1>''
   \<and> cache (state (run (idle (visited []))
        [(online, Call (NavigateTo ''about'' True)), (online, Deliver 0), (online, Deliver 0),
         (online, Deliver 0), (republished, Deliver 0)])) ''about'' = Some ''<p>new text</p>''"
  by (simp add: session_defs table_defs load_defs example_defs republished_def split_beta)

subsection \<open>Prefetching twice\<close>

lemma requests_prefetch_once:
  assumes "defineRoutes p = Some r" and "p \<notin> prefetchedRoutes s"
    and "cache s (component r) = None"
  shows "requests (trace (prefetchRoute e s p)) = requests (trace s) @ [partialUrl (component r)]"
  using assms by (simp add: prefetchRoute_def Let_def loadComponent_miss_requests)

text \<open>
  C5. Two calls of \<open>prefetchRoute\<close> in a row for a registered path that was not
  prefetched and whose component is not cached issue exactly one request, the one for
  that component's fragment. After the first call every later prefetch of that path, at
  any point of the session and whatever else is pending or overlapping, returns at once
  and leaves the state unchanged; and the set of prefetched paths only grows along a
  session.
\<close>

theorem prefetch_dedup:
  assumes "defineRoutes p = Some r" and "p \<notin> prefetchedRoutes s"
    and "cache s (component r) = None"
  shows "requests (trace (prefetchRoute e2 (prefetchRoute e1 s p) p)) =
           requests (trace s) @ [partialUrl (component r)]
       \<and> (\<forall>tasks steps e'.
             prefetchRoute e' (state (run \<lparr>state = prefetchRoute e1 s p, pending = tasks\<rparr> steps)) p =
               state (run \<lparr>state = prefetchRoute e1 s p, pending = tasks\<rparr> steps)
             \<and> startPrefetchRoute e'
                  (state (run \<lparr>state = prefetchRoute e1 s p, pending = tasks\<rparr> steps)) p =
                 (state (run \<lparr>state = prefetchRoute e1 s p, pending = tasks\<rparr> steps), []))
       \<and> (\<forall>ss steps. prefetchedRoutes (state ss) \<subseteq> prefetchedRoutes (state (run ss steps)))"
proof -
  have added: "p \<in> prefetchedRoutes (prefetchRoute e1 s p)"
    using assms(1) by (rule prefetchRoute_adds)
  have once: "requests (trace (prefetchRoute e1 s p)) =
      requests (trace s) @ [partialUrl (component r)]"
    using assms by (rule requests_prefetch_once)
  have second: "prefetchRoute e2 (prefetchRoute e1 s p) p = prefetchRoute e1 s p"
    using added by (rule prefetchRoute_skip)
  have still: "p \<in> prefetchedRoutes (state (run \<lparr>state = prefetchRoute e1 s p, pending = tasks\<rparr> steps))"
    for tasks steps
    using added run_prefetched [of "\<lparr>state = prefetchRoute e1 s p, pending = tasks\<rparr>" steps]
    by auto
  have later: "prefetchRoute e'
        (state (run \<lparr>state = prefetchRoute e1 s p, pending = tasks\<rparr> steps)) p =
      state (run \<lparr>state = prefetchRoute e1 s p, pending = tasks\<rparr> steps)"
    "startPrefetchRoute e'
        (state (run \<lparr>state = prefetchRoute e1 s p, pending = tasks\<rparr> steps)) p =
      (state (run \<lparr>state = prefetchRoute e1 s p, pending = tasks\<rparr> steps), [])"
    for tasks steps e'
    using still [of tasks steps] by (simp_all add: prefetchRoute_skip startPrefetchRoute_def)
  show ?thesis
    using once second later run_prefetched by simp
qed

theorem prefetch_dedup_witness:
  "defineRoutes ''contact'' = Some (mkRoute ''contact'' ''contact'' ''Contact Us'')
   \<and> ''contact'' \<notin> prefetchedRoutes (visited ''about'')
   \<and> cache (visited ''about'') ''contact'' = None
   \<and> requests (trace (visited ''about'')) = [''partials/about.html'']
   \<and> requests (trace (prefetchRoute online (prefetchRoute online (visited ''about'') ''contact'')
        ''contact'')) = [''partials/about.html'', ''partials/contact.html'']"
proof -
  have d: "defineRoutes ''contact'' = Some (mkRoute ''contact'' ''contact'' ''Contact Us'')"
    by (simp add: defineRoutes_def routeList_def)
  have n: "''contact'' \<notin> prefetchedRoutes (visited ''about'')"
    by (simp add: visited_def initial_def)
  have c: "cache (visited ''about'') (component (mkRoute ''contact'' ''contact'' ''Contact Us'')) = None"
    by (simp add: table_defs load_defs example_defs)
  have t: "requests (trace (visited ''about'')) = [''partials/about.html'']"
    by (simp add: table_defs load_defs example_defs)
  show ?thesis
    using d n c t prefetch_dedup [OF d n c, of online online]
    by (simp add: partialUrl_def)
qed

end
